theory Spec2Isabelle
  imports Main "HOL-Library.Word"
begin

unbundle bit_operations_syntax

section \<open>Data model of minicc.c\<close>

text \<open>Token kinds, in the order of the C enumeration \<open>TokenType\<close>.\<close>

datatype TokenType =
    TOK_EOF | TOK_INT | TOK_IF | TOK_ELSE | TOK_WHILE | TOK_FOR | TOK_RETURN | TOK_VOID
  | TOK_IDENT | TOK_NUM | TOK_STR
  | TOK_PLUS | TOK_MINUS | TOK_STAR | TOK_SLASH | TOK_PERCENT | TOK_ASSIGN
  | TOK_EQ | TOK_NE | TOK_LT | TOK_GT | TOK_LE | TOK_GE | TOK_AND | TOK_OR | TOK_NOT
  | TOK_LPAREN | TOK_RPAREN | TOK_LBRACE | TOK_RBRACE | TOK_LBRACKET | TOK_RBRACKET
  | TOK_SEMI | TOK_COMMA | TOK_AMP | TOK_PLUSPLUS | TOK_MINUSMINUS | TOK_PLUSEQ | TOK_MINUSEQ

text \<open>The struct \<open>Token\<close>. A field keeps its old value until the lexer assigns it again,
  exactly as the C struct does (\<open>str\<close> of the last identifier or keyword, \<open>num\<close> of the last
  number).\<close>

record Token =
  ttype :: TokenType
  str :: string
  num :: int
  tline :: int
  tcol :: int

text \<open>The tagged union \<open>AST\<close>. A child pointer that may be NULL is an option; the operator of
  a binary or unary node is the token kind the parser stored; the compound marker of an
  assignment is the character the parser stored (NUL for plain \<open>=\<close>).\<close>

datatype AST =
    AST_NUM int
  | AST_STR string
  | AST_VAR string
  | AST_BINOP TokenType AST AST
  | AST_UNOP TokenType AST
  | AST_ASSIGN AST AST char
  | AST_CALL string "AST list"
  | AST_IF AST AST "AST option"
  | AST_WHILE AST AST
  | AST_FOR "AST option" "AST option" "AST option" AST
  | AST_RETURN "AST option"
  | AST_BLOCK "AST list"
  | AST_FUNC string "string list" AST bool
  | AST_VARDECL string "AST option" bool int
  | AST_PROGRAM "AST list" "AST list"
  | AST_ARRAY_ACCESS string AST
  | AST_ADDR string

text \<open>The struct \<open>Symbol\<close>.\<close>

record Symbol =
  name :: string
  offset :: int
  is_global :: bool
  is_param :: bool
  param_index :: int
  is_array :: bool
  array_size :: int

text \<open>One call of \<open>emit\<close>: the format string and its arguments. The output file is the list of
  these lines, each followed by a newline. \<open>Indeterminate\<close> stands for an integer the C code
  reads through the wrong member of the node union.\<close>

datatype arg = I int | S string | Indeterminate

type_synonym asm_line = "string \<times> arg list"

text \<open>The struct \<open>Compiler\<close>. \<open>src\<close> is the whole source buffer with its terminating NUL byte
  (the buffer \<open>read_file\<close> returns), \<open>pos\<close> the index into it. \<open>symbols\<close> is the array of 256
  entries, of which the first \<open>nsymbols\<close> are live: the list holds the entries written so
  far, and the entries behind it still hold the zeros of \<open>Compiler compiler = {0}\<close>; \<open>string_literals\<close> holds the \<open>nstrings\<close>
  strings stored so far.\<close>

record Compiler =
  src :: string
  pos :: nat
  line :: int
  col :: int
  cur :: Token
  symbols :: "Symbol list"
  nsymbols :: nat
  stack_offset :: int
  out :: "asm_line list"
  label_count :: int
  string_literals :: "string list"
  is_arm64 :: bool
  is_linux :: bool

text \<open>How a run can stop without a result. \<open>Diagnostic l c m\<close> is the function \<open>error\<close>: the
  line \<open>Error at line l, col c: m\<close> on stderr and \<open>exit(1)\<close>. \<open>OutOfBounds\<close> and \<open>NullDeref\<close>
  are the places where the C program leaves defined behaviour: an access outside an array
  and a dereference of NULL. \<open>BadNode\<close> marks a node of a kind the C code never
  passes to the function at hand. \<open>OutOfFuel\<close> is not an outcome of the program: it marks a
  recursion bound of the model that was chosen too small.\<close>

datatype failure = Diagnostic int int string | OutOfBounds | NullDeref | BadNode | OutOfFuel

definition bindE :: "failure + 'a \<Rightarrow> ('a \<Rightarrow> failure + 'b) \<Rightarrow> failure + 'b" where
  "bindE m f = (case m of Inl e \<Rightarrow> Inl e | Inr x \<Rightarrow> f x)"

definition error :: "Compiler \<Rightarrow> string \<Rightarrow> failure + 'a" where
  "error c msg = Inl (Diagnostic (line c) (col c) msg)"

section \<open>Lexer\<close>

abbreviation NUL :: char where "NUL \<equiv> CHR 0x00"
abbreviation NL :: char where "NL \<equiv> CHR 0x0A"
abbreviation DQUOTE :: char where "DQUOTE \<equiv> CHR 0x22"
abbreviation SQUOTE :: char where "SQUOTE \<equiv> CHR 0x27"
abbreviation BACKSLASH :: char where "BACKSLASH \<equiv> CHR 0x5C"

definition isdigit :: "char \<Rightarrow> bool" where
  "isdigit ch = (48 \<le> (of_char ch :: nat) \<and> (of_char ch :: nat) \<le> 57)"

definition isalpha :: "char \<Rightarrow> bool" where
  "isalpha ch = ((65 \<le> (of_char ch :: nat) \<and> (of_char ch :: nat) \<le> 90)
               \<or> (97 \<le> (of_char ch :: nat) \<and> (of_char ch :: nat) \<le> 122))"

definition isalnum :: "char \<Rightarrow> bool" where
  "isalnum ch = (isalpha ch \<or> isdigit ch)"

text \<open>\<open>c->src[i]\<close>: defined inside the buffer only.\<close>

definition rd :: "Compiler \<Rightarrow> nat \<Rightarrow> failure + char" where
  "rd c i = (if i < length (src c) then Inr (src c ! i) else Inl OutOfBounds)"

definition peek :: "Compiler \<Rightarrow> failure + char" where
  "peek c = rd c (pos c)"

definition advance :: "Compiler \<Rightarrow> failure + (char \<times> Compiler)" where
  "advance c = bindE (rd c (pos c)) (\<lambda>ch.
     Inr (ch, if ch = NL then c\<lparr>pos := pos c + 1, line := line c + 1, col := 1\<rparr>
              else c\<lparr>pos := pos c + 1, col := col c + 1\<rparr>))"

lemma bindE_simps [simp]:
  "bindE (Inl e) f = Inl e"
  "bindE (Inr x) f = f x"
  by (simp_all add: bindE_def)

lemma bindE_cong [fundef_cong]:
  "m = m' \<Longrightarrow> (\<And>x. m' = Inr x \<Longrightarrow> f x = f' x) \<Longrightarrow> bindE m f = bindE m' f'"
  by (cases m') (simp_all add: bindE_def)

lemma bindE_Inr_iff: "bindE m f = Inr y \<longleftrightarrow> (\<exists>x. m = Inr x \<and> f x = Inr y)"
  by (cases m) simp_all

lemma advance_Inr:
  "advance c = Inr (ch, c') \<Longrightarrow> pos c < length (src c) \<and> pos c' = pos c + 1 \<and> src c' = src c"
  by (auto simp: advance_def rd_def bindE_Inr_iff split: if_splits)

lemma peek_Inr: "peek c = Inr ch \<Longrightarrow> pos c < length (src c)"
  by (auto simp: peek_def rd_def split: if_splits)

text \<open>\<open>while (peek(c) && peek(c) != '\n') advance(c);\<close>\<close>

function skip_line_comment :: "Compiler \<Rightarrow> failure + Compiler" where
  "skip_line_comment c = bindE (peek c) (\<lambda>ch.
     if ch \<noteq> NUL \<and> ch \<noteq> NL then bindE (advance c) (\<lambda>(x, c'). skip_line_comment c')
     else Inr c)"
  by pat_completeness auto
termination
  by (relation "measure (\<lambda>c. length (src c) - pos c)") (auto dest!: advance_Inr)


lemma skip_line_comment_mono:
  "skip_line_comment c = Inr c' \<Longrightarrow> src c' = src c \<and> pos c \<le> pos c'"
proof (induction c rule: skip_line_comment.induct)
  case (1 c)
  from "1.prems" obtain ch where ch: "peek c = Inr ch"
    by (subst (asm) skip_line_comment.simps) (auto simp: bindE_Inr_iff)
  show ?case
  proof (cases "ch \<noteq> NUL \<and> ch \<noteq> NL")
    case True
    with "1.prems" ch obtain x c1 where a: "advance c = Inr (x, c1)" and r: "skip_line_comment c1 = Inr c'"
      by (subst (asm) skip_line_comment.simps) (auto simp: bindE_Inr_iff)
    from "1.IH" [OF ch True a refl r] advance_Inr [OF a] show ?thesis by simp
  next
    case False
    with "1.prems" ch show ?thesis
      by (subst (asm) skip_line_comment.simps) auto
  qed
qed

text \<open>\<open>while (peek(c) && !(peek(c) == '*' && c->src[c->pos + 1] == '/')) advance(c);\<close>
  The second byte is read only when the first is a star, as \<open>&&\<close> does.\<close>

function skip_block_comment :: "Compiler \<Rightarrow> failure + Compiler" where
  "skip_block_comment c = bindE (peek c) (\<lambda>ch.
     if ch = NUL then Inr c
     else if ch = CHR ''*'' then
       bindE (rd c (pos c + 1)) (\<lambda>ch2.
         if ch2 = CHR ''/'' then Inr c
         else bindE (advance c) (\<lambda>(x, c'). skip_block_comment c'))
     else bindE (advance c) (\<lambda>(x, c'). skip_block_comment c'))"
  by pat_completeness auto
termination
  by (relation "measure (\<lambda>c. length (src c) - pos c)") (auto dest!: advance_Inr)

lemma skip_block_comment_mono:
  "skip_block_comment c = Inr c' \<Longrightarrow> src c' = src c \<and> pos c \<le> pos c'"
proof (induction c rule: skip_block_comment.induct)
  case (1 c)
  from "1.prems" obtain ch where ch: "peek c = Inr ch"
    by (subst (asm) skip_block_comment.simps) (auto simp: bindE_Inr_iff)
  show ?case
  proof (cases "ch = NUL")
    case True
    with "1.prems" ch show ?thesis
      by (subst (asm) skip_block_comment.simps) auto
  next
    case nz: False
    show ?thesis
    proof (cases "ch = CHR ''*''")
      case star: True
      with "1.prems" ch obtain ch2 where ch2: "rd c (pos c + 1) = Inr ch2"
        by (subst (asm) skip_block_comment.simps) (auto simp: bindE_Inr_iff)
      show ?thesis
      proof (cases "ch2 = CHR ''/''")
        case True
        with "1.prems" ch ch2 star show ?thesis
          by (subst (asm) skip_block_comment.simps) auto
      next
        case False
        with "1.prems" ch ch2 star obtain x c1
          where a: "advance c = Inr (x, c1)" and r: "skip_block_comment c1 = Inr c'"
          by (subst (asm) skip_block_comment.simps) (auto simp: bindE_Inr_iff)
        from "1.IH"(1) [OF ch nz star ch2 False a refl r] advance_Inr [OF a]
        show ?thesis by simp
      qed
    next
      case False
      with "1.prems" ch nz obtain x c1
        where a: "advance c = Inr (x, c1)" and r: "skip_block_comment c1 = Inr c'"
        by (subst (asm) skip_block_comment.simps) (auto simp: bindE_Inr_iff)
      from "1.IH"(2) [OF ch nz False a refl r] advance_Inr [OF a]
      show ?thesis by simp
    qed
  qed
qed

text \<open>The body of the block-comment branch of \<open>skip_whitespace\<close>:
  \<open>advance(c); advance(c); while (...) advance(c); if (peek(c)) { advance(c); advance(c); }\<close>\<close>

definition skip_block :: "Compiler \<Rightarrow> failure + Compiler" where
  "skip_block c =
     bindE (advance c) (\<lambda>(x, c1).
     bindE (advance c1) (\<lambda>(x, c2).
     bindE (skip_block_comment c2) (\<lambda>c3.
     bindE (peek c3) (\<lambda>ch.
       if ch \<noteq> NUL then
         bindE (advance c3) (\<lambda>(x, c4).
         bindE (advance c4) (\<lambda>(x, c5). Inr c5))
       else Inr c3))))"

lemma skip_block_mono:
  assumes "skip_block c = Inr c'"
  shows "src c' = src c \<and> pos c < pos c'"
proof -
  from assms obtain x1 c1 x2 c2 c3 ch
    where a1: "advance c = Inr (x1, c1)" and a2: "advance c1 = Inr (x2, c2)"
      and b: "skip_block_comment c2 = Inr c3" and p: "peek c3 = Inr ch"
      and r: "(if ch \<noteq> NUL then
                 bindE (advance c3) (\<lambda>(x, c4). bindE (advance c4) (\<lambda>(x, c5). Inr c5))
               else Inr c3) = Inr c'"
    unfolding skip_block_def by (auto simp: bindE_Inr_iff)
  have s3: "src c3 = src c \<and> pos c < pos c3"
    using advance_Inr [OF a1] advance_Inr [OF a2] skip_block_comment_mono [OF b] by simp
  show ?thesis
  proof (cases "ch \<noteq> NUL")
    case True
    with r obtain x4 c4 x5 where a4: "advance c3 = Inr (x4, c4)" and a5: "advance c4 = Inr (x5, c')"
      by (auto simp: bindE_Inr_iff)
    from advance_Inr [OF a4] advance_Inr [OF a5] s3 show ?thesis by simp
  next
    case False
    with r s3 show ?thesis by simp
  qed
qed

lemma skip_line_comment_step:
  assumes "skip_line_comment c = Inr c'" "peek c = Inr ch" "ch \<noteq> NUL" "ch \<noteq> NL"
  shows "src c' = src c \<and> pos c < pos c'"
proof -
  from assms obtain x c1 where a: "advance c = Inr (x, c1)" and r: "skip_line_comment c1 = Inr c'"
    by (subst (asm) skip_line_comment.simps) (auto simp: bindE_Inr_iff)
  from skip_line_comment_mono [OF r] advance_Inr [OF a] show ?thesis by simp
qed

function skip_whitespace :: "Compiler \<Rightarrow> failure + Compiler" where
  "skip_whitespace c = bindE (peek c) (\<lambda>ch.
     if ch = CHR '' '' \<or> ch = CHR 0x09 \<or> ch = NL \<or> ch = CHR 0x0D then
       bindE (advance c) (\<lambda>(x, c'). skip_whitespace c')
     else if ch = CHR ''/'' then
       bindE (rd c (pos c + 1)) (\<lambda>ch2.
         if ch2 = CHR ''/'' then bindE (skip_line_comment c) (\<lambda>c'. skip_whitespace c')
         else if ch2 = CHR ''*'' then bindE (skip_block c) (\<lambda>c'. skip_whitespace c')
         else Inr c)
     else Inr c)"
  by pat_completeness auto
termination
proof (relation "measure (\<lambda>c. length (src c) - pos c)", goal_cases)
  case 1
  show ?case by simp
next
  case (2 c ch x xa y)
  then show ?case by (auto dest!: advance_Inr)
next
  case (3 c ch ch2 c')
  then have p: "peek c = Inr ch" and ch: "ch = CHR ''/''" and s: "skip_line_comment c = Inr c'"
    by auto
  from skip_line_comment_step [OF s p] ch peek_Inr [OF p]
  show ?case by auto
next
  case (4 c ch ch2 c')
  then have p: "peek c = Inr ch" and s: "skip_block c = Inr c'"
    by auto
  from skip_block_mono [OF s] peek_Inr [OF p]
  show ?case by auto
qed

text \<open>\<open>while (isalnum(peek(c)) || peek(c) == '_') advance(c);\<close>\<close>

function lex_ident :: "Compiler \<Rightarrow> failure + Compiler" where
  "lex_ident c = bindE (peek c) (\<lambda>ch.
     if isalnum ch \<or> ch = CHR ''_'' then bindE (advance c) (\<lambda>(x, c'). lex_ident c')
     else Inr c)"
  by pat_completeness auto
termination
  by (relation "measure (\<lambda>c. length (src c) - pos c)") (auto dest!: advance_Inr)

text \<open>Arithmetic of the C type \<open>int\<close> where a source literal can overflow it: the value is
  reduced to 32 bits in two's complement, which is what the targets of this compiler do
  (the C standard leaves the overflow undefined).\<close>

definition int32 :: "int \<Rightarrow> int" where
  "int32 x = (x + 2147483648) mod 4294967296 - 2147483648"

text \<open>\<open>while (isdigit(peek(c))) c->cur.num = c->cur.num * 10 + (advance(c) - '0');\<close>\<close>

function lex_number :: "Compiler \<Rightarrow> failure + Compiler" where
  "lex_number c = bindE (peek c) (\<lambda>ch.
     if isdigit ch then
       bindE (advance c) (\<lambda>(d, c').
         lex_number (c'\<lparr>cur := (cur c')\<lparr>num := int32 (num (cur c') * 10 + (of_char d - 48))\<rparr>\<rparr>))
     else Inr c)"
  by pat_completeness auto
termination
  by (relation "measure (\<lambda>c. length (src c) - pos c)") (auto dest!: advance_Inr)

text \<open>\<open>while (peek(c) && peek(c) != '"') { if (peek(c) == '\\') advance(c); advance(c); }\<close>\<close>

function lex_string :: "Compiler \<Rightarrow> failure + Compiler" where
  "lex_string c = bindE (peek c) (\<lambda>ch.
     if ch \<noteq> NUL \<and> ch \<noteq> DQUOTE then
       bindE (if ch = BACKSLASH then bindE (advance c) (\<lambda>(x, c1). Inr c1) else Inr c) (\<lambda>c1.
       bindE (advance c1) (\<lambda>(x, c2). lex_string c2))
     else Inr c)"
  by pat_completeness auto
termination
  by (relation "measure (\<lambda>c. length (src c) - pos c)")
     (auto simp: bindE_Inr_iff split: if_splits dest!: advance_Inr)

text \<open>\<open>strncpy(dst, c->src + start, len); dst[len] = '\0'\<close>, read back as a C string.\<close>

definition strncpy :: "string \<Rightarrow> nat \<Rightarrow> nat \<Rightarrow> string" where
  "strncpy s start len = takeWhile (\<lambda>ch. ch \<noteq> NUL) (take len (drop start s))"

definition set_type :: "TokenType \<Rightarrow> Compiler \<Rightarrow> Compiler" where
  "set_type t c = c\<lparr>cur := (cur c)\<lparr>ttype := t\<rparr>\<rparr>"

definition keyword :: "string \<Rightarrow> TokenType" where
  "keyword s =
    (if s = ''int'' then TOK_INT
     else if s = ''void'' then TOK_VOID
     else if s = ''if'' then TOK_IF
     else if s = ''else'' then TOK_ELSE
     else if s = ''while'' then TOK_WHILE
     else if s = ''for'' then TOK_FOR
     else if s = ''return'' then TOK_RETURN
     else TOK_IDENT)"

text \<open>The \<open>switch (ch)\<close> of \<open>next_token\<close>, entered after \<open>advance(c)\<close> has consumed \<open>ch\<close>.\<close>

definition two_char :: "Compiler \<Rightarrow> char \<Rightarrow> TokenType \<Rightarrow> (failure + Compiler) \<Rightarrow> failure + Compiler" where
  "two_char c second t otherwise = bindE (peek c) (\<lambda>p.
     if p = second then bindE (advance c) (\<lambda>(x, c'). Inr (set_type t c')) else otherwise)"

definition lex_operator :: "Compiler \<Rightarrow> char \<Rightarrow> failure + Compiler" where
  "lex_operator c ch =
    (if ch = CHR ''+'' then
       two_char c (CHR ''+'') TOK_PLUSPLUS (two_char c (CHR ''='') TOK_PLUSEQ (Inr (set_type TOK_PLUS c)))
     else if ch = CHR ''-'' then
       two_char c (CHR ''-'') TOK_MINUSMINUS (two_char c (CHR ''='') TOK_MINUSEQ (Inr (set_type TOK_MINUS c)))
     else if ch = CHR ''*'' then Inr (set_type TOK_STAR c)
     else if ch = CHR ''/'' then Inr (set_type TOK_SLASH c)
     else if ch = CHR ''%'' then Inr (set_type TOK_PERCENT c)
     else if ch = CHR ''='' then two_char c (CHR ''='') TOK_EQ (Inr (set_type TOK_ASSIGN c))
     else if ch = CHR ''!'' then two_char c (CHR ''='') TOK_NE (Inr (set_type TOK_NOT c))
     else if ch = CHR ''<'' then two_char c (CHR ''='') TOK_LE (Inr (set_type TOK_LT c))
     else if ch = CHR ''>'' then two_char c (CHR ''='') TOK_GE (Inr (set_type TOK_GT c))
     else if ch = CHR ''&'' then two_char c (CHR ''&'') TOK_AND (Inr (set_type TOK_AMP c))
     else if ch = CHR ''|'' then
       two_char c (CHR ''|'') TOK_OR (error c (''Expected '' @ [SQUOTE] @ ''||'' @ [SQUOTE]))
     else if ch = CHR ''('' then Inr (set_type TOK_LPAREN c)
     else if ch = CHR '')'' then Inr (set_type TOK_RPAREN c)
     else if ch = CHR ''{'' then Inr (set_type TOK_LBRACE c)
     else if ch = CHR ''}'' then Inr (set_type TOK_RBRACE c)
     else if ch = CHR ''['' then Inr (set_type TOK_LBRACKET c)
     else if ch = CHR '']'' then Inr (set_type TOK_RBRACKET c)
     else if ch = CHR '';'' then Inr (set_type TOK_SEMI c)
     else if ch = CHR '','' then Inr (set_type TOK_COMMA c)
     else error c (''Unexpected character: '' @ [SQUOTE, ch, SQUOTE]))"

definition next_token :: "Compiler \<Rightarrow> failure + Compiler" where
  "next_token c0 =
     bindE (skip_whitespace c0) (\<lambda>c1.
     let c = c1\<lparr>cur := (cur c1)\<lparr>tline := line c1, tcol := col c1\<rparr>\<rparr> in
     bindE (peek c) (\<lambda>ch.
       if ch = NUL then Inr (set_type TOK_EOF c)
       else if isalpha ch \<or> ch = CHR ''_'' then
         bindE (lex_ident c) (\<lambda>c'.
           let s = strncpy (src c) (pos c) (pos c' - pos c) in
           Inr (c'\<lparr>cur := (cur c')\<lparr>str := s, ttype := keyword s\<rparr>\<rparr>))
       else if isdigit ch then
         bindE (lex_number (c\<lparr>cur := (cur c)\<lparr>num := 0\<rparr>\<rparr>)) (\<lambda>c'. Inr (set_type TOK_NUM c'))
       else if ch = DQUOTE then
         bindE (advance c) (\<lambda>(x, cs).
         bindE (lex_string cs) (\<lambda>c'.
           let s = strncpy (src c) (pos cs) (pos c' - pos cs);
               c'' = c'\<lparr>cur := (cur c')\<lparr>str := s\<rparr>\<rparr> in
           bindE (peek c'') (\<lambda>q.
             if q = DQUOTE then bindE (advance c'') (\<lambda>(x, c3). Inr (set_type TOK_STR c3))
             else Inr (set_type TOK_STR c''))))
       else bindE (advance c) (\<lambda>(x, c'). lex_operator c' ch)))"

text \<open>The state \<open>compile\<close> and \<open>parse_only\<close> set up on a zeroed \<open>Compiler\<close>: \<open>text\<close> is the content
  of the input file, to which \<open>read_file\<close> appends the NUL byte.\<close>

definition init_compiler :: "bool \<Rightarrow> bool \<Rightarrow> string \<Rightarrow> Compiler" where
  "init_compiler arm linux text =
     \<lparr>src = text @ [NUL], pos = 0, line = 1, col = 1,
      cur = \<lparr>ttype = TOK_EOF, str = [], num = 0, tline = 0, tcol = 0\<rparr>,
      symbols = [], nsymbols = 0, stack_offset = 0, out = [], label_count = 0, string_literals = [],
      is_arm64 = arm, is_linux = linux\<rparr>"

section \<open>Parser\<close>

text \<open>The parser is recursive descent over the lexer state. Its recursion is bounded in the
  model by a counter that every call and every loop iteration decrements; a run that
  exhausts it yields \<open>OutOfFuel\<close>. The arrays the parser fills have no bound check in the C
  code (16 call arguments, 16 parameters, 256 statements of a block, 64 functions, 64
  globals): a store past the end is \<open>OutOfBounds\<close>.\<close>

type_synonym parse_result = "failure + (AST \<times> Compiler)"

definition accept :: "Compiler \<Rightarrow> TokenType \<Rightarrow> failure + (bool \<times> Compiler)" where
  "accept c t = (if ttype (cur c) = t then bindE (next_token c) (\<lambda>c'. Inr (True, c'))
                 else Inr (False, c))"

definition expect :: "Compiler \<Rightarrow> TokenType \<Rightarrow> failure + Compiler" where
  "expect c t = bindE (accept c t) (\<lambda>(ok, c'). if ok then Inr c' else error c' ''Unexpected token'')"

text \<open>The expression parser is one family of mutually recursive C functions. The model
  defines them as a single function over the name of the function entered (with the
  arguments the loop of a function carries: the left operand built so far, the argument
  list collected so far); the constants \<open>parse_primary\<close> ... \<open>parse_expr\<close> below are its
  instances.\<close>

datatype parse_fn =
    Primary | Call_args string "AST list" | Unary
  | Multiplicative | Multiplicative_loop AST
  | Additive | Additive_loop AST
  | Relational | Relational_loop AST
  | Equality | Equality_loop AST
  | Logical_and | Logical_and_loop AST
  | Logical_or | Logical_or_loop AST
  | Assignment | Expr

fun parse :: "nat \<Rightarrow> parse_fn \<Rightarrow> Compiler \<Rightarrow> parse_result" where
  "parse 0 nt c = Inl OutOfFuel"
| "parse (Suc n) Primary c =
    (if ttype (cur c) = TOK_NUM then
       bindE (next_token c) (\<lambda>c'. Inr (AST_NUM (num (cur c)), c'))
     else if ttype (cur c) = TOK_STR then
       bindE (next_token c) (\<lambda>c'. Inr (AST_STR (str (cur c)), c'))
     else if ttype (cur c) = TOK_IDENT then
       bindE (next_token c) (\<lambda>c1.
         if ttype (cur c1) = TOK_LPAREN then
           bindE (next_token c1) (\<lambda>c2. parse n (Call_args (str (cur c)) []) c2)
         else if ttype (cur c1) = TOK_LBRACKET then
           bindE (next_token c1) (\<lambda>c2.
           bindE (parse n Expr c2) (\<lambda>(idx, c3).
           bindE (expect c3 TOK_RBRACKET) (\<lambda>c4.
             Inr (AST_ARRAY_ACCESS (str (cur c)) idx, c4))))
         else Inr (AST_VAR (str (cur c)), c1))
     else if ttype (cur c) = TOK_LPAREN then
       bindE (next_token c) (\<lambda>c1.
       bindE (parse n Expr c1) (\<lambda>(node, c2).
       bindE (expect c2 TOK_RPAREN) (\<lambda>c3. Inr (node, c3))))
     else if ttype (cur c) = TOK_AMP then
       bindE (next_token c) (\<lambda>c1.
         if ttype (cur c1) \<noteq> TOK_IDENT then error c1 ''Expected identifier after &''
         else bindE (next_token c1) (\<lambda>c2. Inr (AST_ADDR (str (cur c1)), c2)))
     else error c ''Expected expression'')"
| "parse (Suc n) (Call_args f args) c =
    (if ttype (cur c) \<noteq> TOK_RPAREN then
       bindE (parse n Expr c) (\<lambda>(e, c1).
         if length args \<ge> 16 then Inl OutOfBounds
         else bindE (if ttype (cur c1) \<noteq> TOK_RPAREN then expect c1 TOK_COMMA else Inr c1) (\<lambda>c2.
           parse n (Call_args f (args @ [e])) c2))
     else bindE (expect c TOK_RPAREN) (\<lambda>c1. Inr (AST_CALL f args, c1)))"
| "parse (Suc n) Unary c =
    (if ttype (cur c) = TOK_MINUS \<or> ttype (cur c) = TOK_NOT then
       bindE (next_token c) (\<lambda>c1.
       bindE (parse n Unary c1) (\<lambda>(operand, c2).
         Inr (AST_UNOP (ttype (cur c)) operand, c2)))
     else if ttype (cur c) = TOK_PLUSPLUS \<or> ttype (cur c) = TOK_MINUSMINUS then
       bindE (next_token c) (\<lambda>c1.
         if ttype (cur c1) \<noteq> TOK_IDENT then error c1 ''Expected identifier after ++/--''
         else bindE (next_token c1) (\<lambda>c2.
           Inr (AST_ASSIGN (AST_VAR (str (cur c1)))
                  (AST_BINOP (if ttype (cur c) = TOK_PLUSPLUS then TOK_PLUS else TOK_MINUS)
                     (AST_VAR (str (cur c1))) (AST_NUM 1))
                  NUL, c2)))
     else parse n Primary c)"
| "parse (Suc n) Multiplicative c =
    bindE (parse n Unary c) (\<lambda>(left, c1). parse n (Multiplicative_loop left) c1)"
| "parse (Suc n) (Multiplicative_loop left) c =
    (if ttype (cur c) = TOK_STAR \<or> ttype (cur c) = TOK_SLASH \<or> ttype (cur c) = TOK_PERCENT then
       bindE (next_token c) (\<lambda>c1.
       bindE (parse n Unary c1) (\<lambda>(right, c2).
         parse n (Multiplicative_loop (AST_BINOP (ttype (cur c)) left right)) c2))
     else Inr (left, c))"
| "parse (Suc n) Additive c =
    bindE (parse n Multiplicative c) (\<lambda>(left, c1). parse n (Additive_loop left) c1)"
| "parse (Suc n) (Additive_loop left) c =
    (if ttype (cur c) = TOK_PLUS \<or> ttype (cur c) = TOK_MINUS then
       bindE (next_token c) (\<lambda>c1.
       bindE (parse n Multiplicative c1) (\<lambda>(right, c2).
         parse n (Additive_loop (AST_BINOP (ttype (cur c)) left right)) c2))
     else Inr (left, c))"
| "parse (Suc n) Relational c =
    bindE (parse n Additive c) (\<lambda>(left, c1). parse n (Relational_loop left) c1)"
| "parse (Suc n) (Relational_loop left) c =
    (if ttype (cur c) = TOK_LT \<or> ttype (cur c) = TOK_GT
        \<or> ttype (cur c) = TOK_LE \<or> ttype (cur c) = TOK_GE then
       bindE (next_token c) (\<lambda>c1.
       bindE (parse n Additive c1) (\<lambda>(right, c2).
         parse n (Relational_loop (AST_BINOP (ttype (cur c)) left right)) c2))
     else Inr (left, c))"
| "parse (Suc n) Equality c =
    bindE (parse n Relational c) (\<lambda>(left, c1). parse n (Equality_loop left) c1)"
| "parse (Suc n) (Equality_loop left) c =
    (if ttype (cur c) = TOK_EQ \<or> ttype (cur c) = TOK_NE then
       bindE (next_token c) (\<lambda>c1.
       bindE (parse n Relational c1) (\<lambda>(right, c2).
         parse n (Equality_loop (AST_BINOP (ttype (cur c)) left right)) c2))
     else Inr (left, c))"
| "parse (Suc n) Logical_and c =
    bindE (parse n Equality c) (\<lambda>(left, c1). parse n (Logical_and_loop left) c1)"
| "parse (Suc n) (Logical_and_loop left) c =
    (if ttype (cur c) = TOK_AND then
       bindE (next_token c) (\<lambda>c1.
       bindE (parse n Equality c1) (\<lambda>(right, c2).
         parse n (Logical_and_loop (AST_BINOP TOK_AND left right)) c2))
     else Inr (left, c))"
| "parse (Suc n) Logical_or c =
    bindE (parse n Logical_and c) (\<lambda>(left, c1). parse n (Logical_or_loop left) c1)"
| "parse (Suc n) (Logical_or_loop left) c =
    (if ttype (cur c) = TOK_OR then
       bindE (next_token c) (\<lambda>c1.
       bindE (parse n Logical_and c1) (\<lambda>(right, c2).
         parse n (Logical_or_loop (AST_BINOP TOK_OR left right)) c2))
     else Inr (left, c))"
| "parse (Suc n) Assignment c =
    bindE (parse n Logical_or c) (\<lambda>(left, c1).
      if ttype (cur c1) = TOK_ASSIGN \<or> ttype (cur c1) = TOK_PLUSEQ \<or> ttype (cur c1) = TOK_MINUSEQ then
        bindE (next_token c1) (\<lambda>c2.
        bindE (parse n Assignment c2) (\<lambda>(right, c3).
          Inr (AST_ASSIGN left right
                 (if ttype (cur c1) = TOK_ASSIGN then NUL
                  else if ttype (cur c1) = TOK_PLUSEQ then CHR ''+'' else CHR ''-''), c3)))
      else Inr (left, c1))"
| "parse (Suc n) Expr c = parse n Assignment c"

definition parse_primary :: "nat \<Rightarrow> Compiler \<Rightarrow> parse_result" where
  "parse_primary n c = parse n Primary c"

definition parse_unary :: "nat \<Rightarrow> Compiler \<Rightarrow> parse_result" where
  "parse_unary n c = parse n Unary c"

definition parse_multiplicative :: "nat \<Rightarrow> Compiler \<Rightarrow> parse_result" where
  "parse_multiplicative n c = parse n Multiplicative c"

definition parse_additive :: "nat \<Rightarrow> Compiler \<Rightarrow> parse_result" where
  "parse_additive n c = parse n Additive c"

definition parse_relational :: "nat \<Rightarrow> Compiler \<Rightarrow> parse_result" where
  "parse_relational n c = parse n Relational c"

definition parse_equality :: "nat \<Rightarrow> Compiler \<Rightarrow> parse_result" where
  "parse_equality n c = parse n Equality c"

definition parse_logical_and :: "nat \<Rightarrow> Compiler \<Rightarrow> parse_result" where
  "parse_logical_and n c = parse n Logical_and c"

definition parse_logical_or :: "nat \<Rightarrow> Compiler \<Rightarrow> parse_result" where
  "parse_logical_or n c = parse n Logical_or c"

definition parse_assignment :: "nat \<Rightarrow> Compiler \<Rightarrow> parse_result" where
  "parse_assignment n c = parse n Assignment c"

definition parse_expr :: "nat \<Rightarrow> Compiler \<Rightarrow> parse_result" where
  "parse_expr n c = parse n Expr c"

text \<open>\<open>parse_block\<close> and \<open>parse_stmt\<close> call each other; they are defined the same way.\<close>

datatype stmt_fn = Stmt | Block | Block_loop "AST list"

fun parse_s :: "nat \<Rightarrow> stmt_fn \<Rightarrow> Compiler \<Rightarrow> parse_result" where
  "parse_s 0 f c = Inl OutOfFuel"
| "parse_s (Suc n) Block c =
    bindE (expect c TOK_LBRACE) (\<lambda>c1. parse_s n (Block_loop []) c1)"
| "parse_s (Suc n) (Block_loop stmts) c =
    (if ttype (cur c) \<noteq> TOK_RBRACE then
       bindE (parse_s n Stmt c) (\<lambda>(st, c1).
         if length stmts \<ge> 256 then Inl OutOfBounds
         else parse_s n (Block_loop (stmts @ [st])) c1)
     else bindE (expect c TOK_RBRACE) (\<lambda>c1. Inr (AST_BLOCK stmts, c1)))"
| "parse_s (Suc n) Stmt c =
    (if ttype (cur c) = TOK_INT then
       bindE (next_token c) (\<lambda>c1.
       bindE (expect c1 TOK_IDENT) (\<lambda>c2.
       bindE (if ttype (cur c2) = TOK_LBRACKET then
                bindE (next_token c2) (\<lambda>c3.
                bindE (expect c3 TOK_NUM) (\<lambda>c4.
                bindE (expect c4 TOK_RBRACKET) (\<lambda>c5. Inr (True, num (cur c3), c5))))
              else Inr (False, 0, c2)) (\<lambda>(arr, size, c6).
       bindE (if ttype (cur c6) = TOK_ASSIGN then
                bindE (next_token c6) (\<lambda>c7.
                bindE (parse_expr n c7) (\<lambda>(e, c8). Inr (Some e, c8)))
              else Inr (None, c6)) (\<lambda>(init, c9).
       bindE (expect c9 TOK_SEMI) (\<lambda>c10.
         Inr (AST_VARDECL (str (cur c1)) init arr size, c10))))))
     else if ttype (cur c) = TOK_IF then
       bindE (next_token c) (\<lambda>c1.
       bindE (expect c1 TOK_LPAREN) (\<lambda>c2.
       bindE (parse_expr n c2) (\<lambda>(cond, c3).
       bindE (expect c3 TOK_RPAREN) (\<lambda>c4.
       bindE (parse_s n Stmt c4) (\<lambda>(then_branch, c5).
         if ttype (cur c5) = TOK_ELSE then
           bindE (next_token c5) (\<lambda>c6.
           bindE (parse_s n Stmt c6) (\<lambda>(else_branch, c7).
             Inr (AST_IF cond then_branch (Some else_branch), c7)))
         else Inr (AST_IF cond then_branch None, c5))))))
     else if ttype (cur c) = TOK_WHILE then
       bindE (next_token c) (\<lambda>c1.
       bindE (expect c1 TOK_LPAREN) (\<lambda>c2.
       bindE (parse_expr n c2) (\<lambda>(cond, c3).
       bindE (expect c3 TOK_RPAREN) (\<lambda>c4.
       bindE (parse_s n Stmt c4) (\<lambda>(body, c5).
         Inr (AST_WHILE cond body, c5))))))
     else if ttype (cur c) = TOK_FOR then
       bindE (next_token c) (\<lambda>c1.
       bindE (expect c1 TOK_LPAREN) (\<lambda>c2.
       bindE (if ttype (cur c2) = TOK_INT then
                bindE (next_token c2) (\<lambda>c3.
                bindE (expect c3 TOK_IDENT) (\<lambda>c4.
                  if ttype (cur c4) = TOK_ASSIGN then
                    bindE (next_token c4) (\<lambda>c5.
                    bindE (parse_expr n c5) (\<lambda>(e, c6).
                      Inr (Some (AST_VARDECL (str (cur c3)) (Some e) False 0), c6)))
                  else Inr (Some (AST_VARDECL (str (cur c3)) None False 0), c4)))
              else if ttype (cur c2) \<noteq> TOK_SEMI then
                bindE (parse_expr n c2) (\<lambda>(e, c3). Inr (Some e, c3))
              else Inr (None, c2)) (\<lambda>(init, c7).
       bindE (expect c7 TOK_SEMI) (\<lambda>c8.
       bindE (if ttype (cur c8) \<noteq> TOK_SEMI then
                bindE (parse_expr n c8) (\<lambda>(e, c9). Inr (Some e, c9))
              else Inr (None, c8)) (\<lambda>(cond, c10).
       bindE (expect c10 TOK_SEMI) (\<lambda>c11.
       bindE (if ttype (cur c11) \<noteq> TOK_RPAREN then
                bindE (parse_expr n c11) (\<lambda>(e, c12). Inr (Some e, c12))
              else Inr (None, c11)) (\<lambda>(update, c13).
       bindE (expect c13 TOK_RPAREN) (\<lambda>c14.
       bindE (parse_s n Stmt c14) (\<lambda>(body, c15).
         Inr (AST_FOR init cond update body, c15))))))))))
     else if ttype (cur c) = TOK_RETURN then
       bindE (next_token c) (\<lambda>c1.
       bindE (if ttype (cur c1) \<noteq> TOK_SEMI then
                bindE (parse_expr n c1) (\<lambda>(e, c2). Inr (Some e, c2))
              else Inr (None, c1)) (\<lambda>(v, c3).
       bindE (expect c3 TOK_SEMI) (\<lambda>c4. Inr (AST_RETURN v, c4))))
     else if ttype (cur c) = TOK_LBRACE then parse_s n Block c
     else
       bindE (parse_expr n c) (\<lambda>(e, c1).
       bindE (expect c1 TOK_SEMI) (\<lambda>c2. Inr (e, c2))))"

definition parse_block :: "nat \<Rightarrow> Compiler \<Rightarrow> parse_result" where
  "parse_block n c = parse_s n Block c"

definition parse_stmt :: "nat \<Rightarrow> Compiler \<Rightarrow> parse_result" where
  "parse_stmt n c = parse_s n Stmt c"

text \<open>The parameter loop of \<open>do_parse_program\<close>:
  \<open>while (cur != ')') { if (cur == int) next_token(c); params[nparams++] = c->cur.str;
  expect(c, TOK_IDENT); if (cur != ')') expect(c, TOK_COMMA); }\<close>\<close>

fun params_loop :: "nat \<Rightarrow> string list \<Rightarrow> Compiler \<Rightarrow> failure + (string list \<times> Compiler)" where
  "params_loop 0 params c = Inl OutOfFuel"
| "params_loop (Suc n) params c =
    (if ttype (cur c) \<noteq> TOK_RPAREN then
       bindE (if ttype (cur c) = TOK_INT then next_token c else Inr c) (\<lambda>c1.
         if length params \<ge> 16 then Inl OutOfBounds
         else
           bindE (expect c1 TOK_IDENT) (\<lambda>c2.
           bindE (if ttype (cur c2) \<noteq> TOK_RPAREN then expect c2 TOK_COMMA else Inr c2) (\<lambda>c3.
             params_loop n (params @ [str (cur c1)]) c3)))
     else Inr (params, c))"

text \<open>The loop of \<open>do_parse_program\<close> over the top-level declarations.\<close>

fun program_loop :: "nat \<Rightarrow> AST list \<Rightarrow> AST list \<Rightarrow> Compiler \<Rightarrow> parse_result" where
  "program_loop 0 funcs globals c = Inl OutOfFuel"
| "program_loop (Suc n) funcs globals c =
    (if ttype (cur c) \<noteq> TOK_EOF then
       (if ttype (cur c) = TOK_INT \<or> ttype (cur c) = TOK_VOID then
          bindE (next_token c) (\<lambda>c1.
          bindE (next_token c1) (\<lambda>c2.
            if ttype (cur c2) = TOK_LPAREN then
              bindE (expect c2 TOK_LPAREN) (\<lambda>c3.
              bindE (params_loop n [] c3) (\<lambda>(params, c4).
              bindE (expect c4 TOK_RPAREN) (\<lambda>c5.
              bindE (parse_block n c5) (\<lambda>(body, c6).
                if length funcs \<ge> 64 then Inl OutOfBounds
                else program_loop n
                       (funcs @ [AST_FUNC (str (cur c1)) params body (ttype (cur c) = TOK_VOID)])
                       globals c6))))
            else
              bindE (if ttype (cur c2) = TOK_LBRACKET then
                       bindE (next_token c2) (\<lambda>c3.
                       bindE (expect c3 TOK_NUM) (\<lambda>c4.
                       bindE (expect c4 TOK_RBRACKET) (\<lambda>c5. Inr (True, num (cur c3), c5))))
                     else Inr (False, 0, c2)) (\<lambda>(arr, size, c6).
              bindE (if ttype (cur c6) = TOK_ASSIGN then
                       bindE (next_token c6) (\<lambda>c7.
                       bindE (parse_expr n c7) (\<lambda>(e, c8). Inr (Some e, c8)))
                     else Inr (None, c6)) (\<lambda>(init, c9).
              bindE (expect c9 TOK_SEMI) (\<lambda>c10.
                if length globals \<ge> 64 then Inl OutOfBounds
                else program_loop n funcs
                       (globals @ [AST_VARDECL (str (cur c1)) init arr size]) c10)))))
        else error c ''Expected function or variable declaration'')
     else Inr (AST_PROGRAM funcs globals, c))"

definition do_parse_program :: "nat \<Rightarrow> Compiler \<Rightarrow> parse_result" where
  "do_parse_program n c = program_loop n [] [] c"

section \<open>Symbol table\<close>

text \<open>\<open>for (int i = c->nsymbols - 1; i >= 0; i--) if (strcmp(c->symbols[i].name, name) == 0)
  return &c->symbols[i]; return NULL;\<close> The first argument of \<open>find_from\<close> is \<open>i + 1\<close>.\<close>

definition zero_symbol :: Symbol where
  "zero_symbol = \<lparr>name = [], offset = 0, is_global = False, is_param = False,
                   param_index = 0, is_array = False, array_size = 0\<rparr>"

text \<open>Entry \<open>i\<close> of the array, and the array after a store to entry \<open>i\<close>.\<close>

definition sym_at :: "Symbol list \<Rightarrow> nat \<Rightarrow> Symbol" where
  "sym_at syms i = (if i < length syms then syms ! i else zero_symbol)"

definition sym_write :: "Symbol list \<Rightarrow> nat \<Rightarrow> Symbol \<Rightarrow> Symbol list" where
  "sym_write syms i sy =
     (if i < length syms then syms[i := sy]
      else syms @ replicate (i - length syms) zero_symbol @ [sy])"

fun find_from :: "nat \<Rightarrow> Symbol list \<Rightarrow> string \<Rightarrow> Symbol option" where
  "find_from 0 syms nm = None"
| "find_from (Suc i) syms nm =
     (if name (sym_at syms i) = nm then Some (sym_at syms i) else find_from i syms nm)"

definition find_symbol :: "Compiler \<Rightarrow> string \<Rightarrow> Symbol option" where
  "find_symbol c nm = find_from (nsymbols c) (symbols c) nm"

text \<open>\<open>add_symbol\<close> fills the entry at index \<open>nsymbols\<close> and returns a pointer to it; the model
  returns the new state, whose entry \<open>nsymbols - 1\<close> the caller may go on to change. The
  field \<open>offset\<close> of a global or a parameter is not assigned and keeps what the slot held.\<close>

definition add_symbol :: "Compiler \<Rightarrow> string \<Rightarrow> bool \<Rightarrow> bool \<Rightarrow> int \<Rightarrow> failure + Compiler" where
  "add_symbol c nm glob param idx =
    (if nsymbols c \<ge> 256 then Inl OutOfBounds
     else
       let sy = (sym_at (symbols c) (nsymbols c))\<lparr>name := nm, is_global := glob, is_param := param,
                   param_index := idx, is_array := False, array_size := 0\<rparr> in
       if \<not> glob \<and> \<not> param then
         Inr (c\<lparr>symbols := sym_write (symbols c) (nsymbols c) (sy\<lparr>offset := stack_offset c + 8\<rparr>),
                nsymbols := nsymbols c + 1, stack_offset := stack_offset c + 8\<rparr>)
       else
         Inr (c\<lparr>symbols := sym_write (symbols c) (nsymbols c) sy, nsymbols := nsymbols c + 1\<rparr>))"

section \<open>Code generation\<close>

definition emit :: "Compiler \<Rightarrow> string \<Rightarrow> arg list \<Rightarrow> Compiler" where
  "emit c fmt args = c\<lparr>out := out c @ [(fmt, args)]\<rparr>"

text \<open>A run of consecutive \<open>emit\<close> calls.\<close>

definition emits :: "Compiler \<Rightarrow> asm_line list \<Rightarrow> Compiler" where
  "emits c ls = foldl (\<lambda>c' (fmt, args). emit c' fmt args) c ls"

definition new_label :: "Compiler \<Rightarrow> int \<times> Compiler" where
  "new_label c = (label_count c, c\<lparr>label_count := label_count c + 1\<rparr>)"

text \<open>\<open>int idx = c->nstrings; c->string_literals[c->nstrings++] = node->str;\<close>\<close>

definition add_string :: "Compiler \<Rightarrow> string \<Rightarrow> failure + (int \<times> Compiler)" where
  "add_string c s =
    (if length (string_literals c) \<ge> 256 then Inl OutOfBounds
     else Inr (int (length (string_literals c)), c\<lparr>string_literals := string_literals c @ [s]\<rparr>))"

subsection \<open>AArch64\<close>

text \<open>The inner \<open>switch (node->binop.op)\<close> of \<open>gen_expr_arm64\<close>; an operator without a case
  emits nothing.\<close>

definition binop_arm64 :: "TokenType \<Rightarrow> Compiler \<Rightarrow> Compiler" where
  "binop_arm64 op c =
    (if op = TOK_PLUS then emit c ''    add w0, w0, w1'' []
     else if op = TOK_MINUS then emit c ''    sub w0, w0, w1'' []
     else if op = TOK_STAR then emit c ''    mul w0, w0, w1'' []
     else if op = TOK_SLASH then emit c ''    sdiv w0, w0, w1'' []
     else if op = TOK_PERCENT then
       emits c [(''    sdiv w2, w0, w1'', []), (''    msub w0, w2, w1, w0'', [])]
     else if op = TOK_EQ then emits c [(''    cmp w0, w1'', []), (''    cset w0, eq'', [])]
     else if op = TOK_NE then emits c [(''    cmp w0, w1'', []), (''    cset w0, ne'', [])]
     else if op = TOK_LT then emits c [(''    cmp w0, w1'', []), (''    cset w0, lt'', [])]
     else if op = TOK_GT then emits c [(''    cmp w0, w1'', []), (''    cset w0, gt'', [])]
     else if op = TOK_LE then emits c [(''    cmp w0, w1'', []), (''    cset w0, le'', [])]
     else if op = TOK_GE then emits c [(''    cmp w0, w1'', []), (''    cset w0, ge'', [])]
     else if op = TOK_AND then
       (let (lbl, c1) = new_label c in
        emits c1 [(''    cbz w0, L%d'', [I lbl]), (''    mov w0, w1'', []), (''L%d:'', [I lbl]),
                  (''    cmp w0, #0'', []), (''    cset w0, ne'', [])])
     else if op = TOK_OR then
       (let (lbl, c1) = new_label c in
        emits c1 [(''    cbnz w0, L%d'', [I lbl]), (''    mov w0, w1'', []), (''L%d:'', [I lbl]),
                  (''    cmp w0, #0'', []), (''    cset w0, ne'', [])])
     else c)"

definition unop_arm64 :: "TokenType \<Rightarrow> Compiler \<Rightarrow> Compiler" where
  "unop_arm64 op c =
    (if op = TOK_MINUS then emit c ''    neg w0, w0'' []
     else if op = TOK_NOT then emits c [(''    cmp w0, #0'', []), (''    cset w0, eq'', [])]
     else c)"

text \<open>The store of \<open>w0\<close> into a variable that ends the variable branch of \<open>AST_ASSIGN\<close>.\<close>

definition store_var_arm64 :: "Symbol \<Rightarrow> string \<Rightarrow> Compiler \<Rightarrow> Compiler" where
  "store_var_arm64 sy nm c =
    (if is_global sy then
       emits c [(''    adrp x1, _%s@PAGE'', [S nm]), (''    add x1, x1, _%s@PAGEOFF'', [S nm]),
                (''    str w0, [x1]'', [])]
     else if is_param sy then emit c ''    str w0, [x29, #%d]'' [I (- (param_index sy + 1) * 8)]
     else emit c ''    str w0, [x29, #-%d]'' [I (offset sy)])"

text \<open>The address of an array into \<open>x1\<close>.\<close>

definition array_base_arm64 :: "Symbol \<Rightarrow> string \<Rightarrow> Compiler \<Rightarrow> Compiler" where
  "array_base_arm64 sy nm c =
    (if is_global sy then
       emits c [(''    adrp x1, _%s@PAGE'', [S nm]), (''    add x1, x1, _%s@PAGEOFF'', [S nm])]
     else emit c ''    sub x1, x29, #%d'' [I (offset sy)])"

text \<open>The pops of the call arguments: \<open>for (i = 0; i < nargs && i < 8; i++)\<close>.\<close>

definition pop_args_arm64 :: "nat \<Rightarrow> Compiler \<Rightarrow> Compiler" where
  "pop_args_arm64 nargs c =
     emits c (map (\<lambda>i. (''    ldr x%d, [sp], #16'', [I (int i)])) [0 ..< min nargs 8])"

text \<open>\<open>gen_expr_arm64\<close>. The loop over the arguments of a call,
  \<open>for (int i = nargs - 1; i >= 0; i--) { gen_expr_arm64(c, args[i]); emit(push); }\<close>,
  is \<open>gen_args_arm64\<close>: on \<open>a # as\<close> it first runs through \<open>as\<close>, the arguments of higher
  index, and then generates \<open>a\<close>.\<close>

fun gen_expr_arm64 :: "AST \<Rightarrow> Compiler \<Rightarrow> failure + Compiler"
  and gen_args_arm64 :: "AST list \<Rightarrow> Compiler \<Rightarrow> failure + Compiler"
where
  "gen_expr_arm64 (AST_NUM v) c =
    (if v \<ge> 0 \<and> v < 65536 then Inr (emit c ''    mov w0, #%d'' [I v])
     else
       let c1 = emit c ''    mov x0, #%d'' [I (v AND 0xFFFF)] in
       if v > 65535 then Inr (emit c1 ''    movk x0, #%d, lsl #16'' [I (drop_bit 16 v AND 0xFFFF)])
       else Inr c1)"
| "gen_expr_arm64 (AST_STR s) c =
    bindE (add_string c s) (\<lambda>(idx, c1).
      Inr (emits c1 [(''    adrp x0, _str%d@PAGE'', [I idx]),
                     (''    add x0, x0, _str%d@PAGEOFF'', [I idx])]))"
| "gen_expr_arm64 (AST_VAR nm) c =
    (case find_symbol c nm of
       None \<Rightarrow> error c (''Undefined variable: '' @ nm)
     | Some sy \<Rightarrow>
        if is_global sy then
          (let c1 = emits c [(''    adrp x0, _%s@PAGE'', [S nm]), (''    add x0, x0, _%s@PAGEOFF'', [S nm])]
           in if is_array sy then Inr c1 else Inr (emit c1 ''    ldr w0, [x0]'' []))
        else if is_param sy then
          Inr (emit c ''    ldr w0, [x29, #%d]'' [I (- (param_index sy + 1) * 8)])
        else Inr (emit c ''    ldr w0, [x29, #-%d]'' [I (offset sy)]))"
| "gen_expr_arm64 (AST_ADDR nm) c =
    (case find_symbol c nm of
       None \<Rightarrow> error c (''Undefined variable: '' @ nm)
     | Some sy \<Rightarrow>
        if is_global sy then
          Inr (emits c [(''    adrp x0, _%s@PAGE'', [S nm]), (''    add x0, x0, _%s@PAGEOFF'', [S nm])])
        else Inr (emit c ''    sub x0, x29, #%d'' [I (offset sy)]))"
| "gen_expr_arm64 (AST_ARRAY_ACCESS nm idx) c =
    (case find_symbol c nm of
       None \<Rightarrow> error c (''Undefined variable: '' @ nm)
     | Some sy \<Rightarrow>
        bindE (gen_expr_arm64 idx c) (\<lambda>c1.
          let c2 = emit c1 ''    str x0, [sp, #-16]!'' [];
              c3 = array_base_arm64 sy nm c2
          in Inr (emits c3 [(''    ldr x0, [sp], #16'', []), (''    ldr w0, [x1, x0, lsl #2]'', [])])))"
| "gen_expr_arm64 (AST_BINOP op l r) c =
    bindE (gen_expr_arm64 l c) (\<lambda>c1.
    bindE (gen_expr_arm64 r (emit c1 ''    str x0, [sp, #-16]!'' [])) (\<lambda>c2.
      Inr (binop_arm64 op (emits c2 [(''    mov x1, x0'', []), (''    ldr x0, [sp], #16'', [])]))))"
| "gen_expr_arm64 (AST_UNOP op e) c =
    bindE (gen_expr_arm64 e c) (\<lambda>c1. Inr (unop_arm64 op c1))"
| "gen_expr_arm64 (AST_ASSIGN left right op) c =
    bindE (gen_expr_arm64 right c) (\<lambda>c1.
      case left of
        AST_VAR nm \<Rightarrow>
          (case find_symbol c1 nm of
             None \<Rightarrow> error c1 (''Undefined variable: '' @ nm)
           | Some sy \<Rightarrow>
              bindE (if op \<noteq> NUL then
                       bindE (gen_expr_arm64 left (emit c1 ''    str x0, [sp, #-16]!'' [])) (\<lambda>c2.
                         Inr (emits c2 [(''    mov w1, w0'', []), (''    ldr x0, [sp], #16'', []),
                                (if op = CHR ''+'' then (''    add w0, w1, w0'', [])
                                 else (''    sub w0, w1, w0'', []))]))
                     else Inr c1) (\<lambda>c3.
              Inr (store_var_arm64 sy nm c3)))
      | AST_ARRAY_ACCESS nm idx \<Rightarrow>
          bindE (gen_expr_arm64 idx (emit c1 ''    str x0, [sp, #-16]!'' [])) (\<lambda>c2.
            let c3 = emit c2 ''    str x0, [sp, #-16]!'' [] in
            case find_symbol c3 nm of
              None \<Rightarrow> Inl NullDeref
            | Some sy \<Rightarrow>
                Inr (emits (array_base_arm64 sy nm c3)
                       [(''    ldr x0, [sp], #16'', []), (''    ldr x2, [sp], #16'', []),
                        (''    str w2, [x1, x0, lsl #2]'', []), (''    mov w0, w2'', [])]))
      | _ \<Rightarrow> Inr c1)"
| "gen_expr_arm64 (AST_CALL f args) c =
    bindE (gen_args_arm64 args c) (\<lambda>c1.
      Inr (emit (pop_args_arm64 (length args) c1) ''    bl _%s'' [S f]))"
| "gen_expr_arm64 (AST_IF a b e) c = error c ''Cannot generate expression''"
| "gen_expr_arm64 (AST_WHILE a b) c = error c ''Cannot generate expression''"
| "gen_expr_arm64 (AST_FOR i a u b) c = error c ''Cannot generate expression''"
| "gen_expr_arm64 (AST_RETURN v) c = error c ''Cannot generate expression''"
| "gen_expr_arm64 (AST_BLOCK ss) c = error c ''Cannot generate expression''"
| "gen_expr_arm64 (AST_FUNC f ps b v) c = error c ''Cannot generate expression''"
| "gen_expr_arm64 (AST_VARDECL nm i a n) c = error c ''Cannot generate expression''"
| "gen_expr_arm64 (AST_PROGRAM fs gs) c = error c ''Cannot generate expression''"
| "gen_args_arm64 [] c = Inr c"
| "gen_args_arm64 (a # as) c =
    bindE (gen_args_arm64 as c) (\<lambda>c1.
    bindE (gen_expr_arm64 a c1) (\<lambda>c2.
      Inr (emit c2 ''    str x0, [sp, #-16]!'' [])))"

text \<open>The body of \<open>if (node->vardecl.is_array)\<close> in the declaration case of \<open>gen_stmt\<close>, on the
  entry \<open>add_symbol\<close> has just returned:
  \<open>sym->is_array = 1; sym->array_size = size; c->stack_offset += (size - 1) * 4;
  sym->offset = c->stack_offset;\<close>\<close>

definition set_array :: "Compiler \<Rightarrow> int \<Rightarrow> Compiler" where
  "set_array c sz =
    (let so = stack_offset c + (sz - 1) * 4; i = nsymbols c - 1 in
     c\<lparr>symbols := sym_write (symbols c) i
                    ((sym_at (symbols c) i)\<lparr>is_array := True, array_size := sz, offset := so\<rparr>),
       stack_offset := so\<rparr>)"

definition last_symbol :: "Compiler \<Rightarrow> Symbol" where
  "last_symbol c = sym_at (symbols c) (nsymbols c - 1)"

definition epilogue_arm64 :: "asm_line list" where
  "epilogue_arm64 = [(''    mov sp, x29'', []), (''    ldp x29, x30, [sp], #16'', []), (''    ret'', [])]"

fun gen_stmt_arm64 :: "AST \<Rightarrow> Compiler \<Rightarrow> failure + Compiler"
  and gen_stmts_arm64 :: "AST list \<Rightarrow> Compiler \<Rightarrow> failure + Compiler"
where
  "gen_stmt_arm64 (AST_VARDECL nm init arr sz) c =
    bindE (add_symbol c nm False False 0) (\<lambda>c1.
      let c2 = (if arr then set_array c1 sz else c1) in
      case init of
        None \<Rightarrow> Inr c2
      | Some e \<Rightarrow>
          bindE (gen_expr_arm64 e c2) (\<lambda>c3.
            Inr (emit c3 ''    str w0, [x29, #-%d]'' [I (offset (last_symbol c2))])))"
| "gen_stmt_arm64 (AST_IF cond then_branch else_branch) c =
    (let (else_label, c1) = new_label c; (end_label, c2) = new_label c1 in
     bindE (gen_expr_arm64 cond c2) (\<lambda>c3.
     bindE (gen_stmt_arm64 then_branch (emit c3 ''    cbz w0, L%d'' [I else_label])) (\<lambda>c4.
     bindE (case else_branch of
              None \<Rightarrow> Inr (emits c4 [(''    b L%d'', [I end_label]), (''L%d:'', [I else_label])])
            | Some e \<Rightarrow>
                gen_stmt_arm64 e (emits c4 [(''    b L%d'', [I end_label]), (''L%d:'', [I else_label])]))
       (\<lambda>c5. Inr (emit c5 ''L%d:'' [I end_label])))))"
| "gen_stmt_arm64 (AST_WHILE cond body) c =
    (let (start_label, c1) = new_label c; (end_label, c2) = new_label c1 in
     bindE (gen_expr_arm64 cond (emit c2 ''L%d:'' [I start_label])) (\<lambda>c3.
     bindE (gen_stmt_arm64 body (emit c3 ''    cbz w0, L%d'' [I end_label])) (\<lambda>c4.
       Inr (emits c4 [(''    b L%d'', [I start_label]), (''L%d:'', [I end_label])]))))"
| "gen_stmt_arm64 (AST_FOR init cond update body) c =
    (let (start_label, c1) = new_label c; (end_label, c2) = new_label c1 in
     bindE (case init of None \<Rightarrow> Inr c2 | Some i \<Rightarrow> gen_stmt_arm64 i c2) (\<lambda>c3.
     bindE (case cond of
              None \<Rightarrow> Inr (emit c3 ''L%d:'' [I start_label])
            | Some e \<Rightarrow>
                bindE (gen_expr_arm64 e (emit c3 ''L%d:'' [I start_label])) (\<lambda>c4.
                  Inr (emit c4 ''    cbz w0, L%d'' [I end_label]))) (\<lambda>c5.
     bindE (gen_stmt_arm64 body c5) (\<lambda>c6.
     bindE (case update of None \<Rightarrow> Inr c6 | Some u \<Rightarrow> gen_expr_arm64 u c6) (\<lambda>c7.
       Inr (emits c7 [(''    b L%d'', [I start_label]), (''L%d:'', [I end_label])]))))))"
| "gen_stmt_arm64 (AST_RETURN v) c =
    bindE (case v of None \<Rightarrow> Inr c | Some e \<Rightarrow> gen_expr_arm64 e c) (\<lambda>c1.
      Inr (emits c1 epilogue_arm64))"
| "gen_stmt_arm64 (AST_BLOCK stmts) c = gen_stmts_arm64 stmts c"
| "gen_stmt_arm64 node c = gen_expr_arm64 node c"
| "gen_stmts_arm64 [] c = Inr c"
| "gen_stmts_arm64 (st # sts) c = bindE (gen_stmt_arm64 st c) (\<lambda>c1. gen_stmts_arm64 sts c1)"

text \<open>The parameter loop of \<open>gen_func_arm64\<close>, from index \<open>i\<close> on.\<close>

fun save_params_arm64 :: "nat \<Rightarrow> string list \<Rightarrow> Compiler \<Rightarrow> failure + Compiler" where
  "save_params_arm64 i [] c = Inr c"
| "save_params_arm64 i (p # ps) c =
    bindE (add_symbol c p False True (int i)) (\<lambda>c1.
      save_params_arm64 (i + 1) ps
        (emit c1 ''    str x%d, [x29, #%d]'' [I (int i), I (- (int i + 1) * 8)]))"

text \<open>\<open>gen_func_arm64\<close> up to the point where the body is generated.\<close>

definition func_entry_arm64 :: "string \<Rightarrow> string list \<Rightarrow> Compiler \<Rightarrow> failure + Compiler" where
  "func_entry_arm64 f params c =
    (let c1 = emits (c\<lparr>stack_offset := 0\<rparr>)
                [(''.globl _%s'', [S f]), (''.p2align 2'', []), (''_%s:'', [S f]),
                 (''    stp x29, x30, [sp, #-16]!'', []), (''    mov x29, sp'', []),
                 (''    sub sp, sp, #256'', [])]
     in bindE (save_params_arm64 0 params c1) (\<lambda>c2.
          Inr (c2\<lparr>stack_offset := int (length params) * 8\<rparr>)))"

fun gen_func_arm64 :: "AST \<Rightarrow> Compiler \<Rightarrow> failure + Compiler" where
  "gen_func_arm64 (AST_FUNC f params body is_void) c =
    bindE (func_entry_arm64 f params c) (\<lambda>c1.
    bindE (gen_stmt_arm64 body c1) (\<lambda>c2.
      Inr ((emits c2 (epilogue_arm64 @ [([], [])]))\<lparr>nsymbols := nsymbols c\<rparr>)))"
| "gen_func_arm64 node c = Inl BadNode"

fun gen_funcs_arm64 :: "AST list \<Rightarrow> Compiler \<Rightarrow> failure + Compiler" where
  "gen_funcs_arm64 [] c = Inr c"
| "gen_funcs_arm64 (f # fs) c = bindE (gen_func_arm64 f c) (\<lambda>c1. gen_funcs_arm64 fs c1)"

text \<open>The first loop of \<open>gen_program\<close>: every global enters the symbol table.\<close>

fun add_globals :: "AST list \<Rightarrow> Compiler \<Rightarrow> failure + Compiler" where
  "add_globals [] c = Inr c"
| "add_globals (AST_VARDECL nm init arr sz # gs) c =
    bindE (add_symbol c nm True False 0) (\<lambda>c1.
      add_globals gs
        (if arr then
           c1\<lparr>symbols := sym_write (symbols c1) (nsymbols c1 - 1)
                  ((last_symbol c1)\<lparr>is_array := True, array_size := sz\<rparr>)\<rparr>
         else c1))"
| "add_globals (g # gs) c = Inl BadNode"

text \<open>The value \<open>global->vardecl.init->num\<close> printed for an initialised global.\<close>

fun init_num :: "AST \<Rightarrow> arg" where
  "init_num (AST_NUM v) = I v"
| "init_num e = Indeterminate"

text \<open>The data lines of one global; \<open>align\<close> is the \<open>.p2align 2\<close> line only the AArch64
  generator emits.\<close>

fun global_data :: "bool \<Rightarrow> string \<Rightarrow> AST \<Rightarrow> asm_line list" where
  "global_data align prefix (AST_VARDECL nm init arr sz) =
     [(''.globl %s%s'', [S prefix, S nm])] @
     (if align then [(''.p2align 2'', [])] else []) @
     [(''%s%s:'', [S prefix, S nm])] @
     [if arr then (''    .zero %d'', [I (sz * 4)])
      else case init of Some e \<Rightarrow> (''    .long %d'', [init_num e]) | None \<Rightarrow> (''    .long 0'', [])] @
     [([], [])]"
| "global_data align prefix g = []"

definition string_data :: "string \<Rightarrow> string list \<Rightarrow> asm_line list" where
  "string_data prefix strs =
     concat (map (\<lambda>(i, s). [(''%sstr%d:'', [S prefix, I (int i)]),
                             (''    .asciz '' @ [DQUOTE] @ ''%s'' @ [DQUOTE], [S s])])
                 (enumerate 0 strs))"

fun gen_program_arm64 :: "AST \<Rightarrow> Compiler \<Rightarrow> failure + Compiler" where
  "gen_program_arm64 (AST_PROGRAM funcs globals) c =
    bindE (add_globals globals c) (\<lambda>c1.
    bindE (gen_funcs_arm64 funcs
             (emits c1 [(if is_linux c1 then (''.section .text'', [])
                         else (''.section __TEXT,__text'', [])), ([], [])])) (\<lambda>c2.
      let prefix = (if is_linux c2 then [] else ''_'');
          c3 = emit c2 (if is_linux c2 then ''.section .data'' else ''.section __DATA,__data'') [];
          c4 = emits c3 (concat (map (global_data True prefix) globals));
          c5 = emit c4 (if is_linux c4 then ''.section .rodata'' else ''.section __TEXT,__cstring'') []
      in Inr (emits c5 (string_data prefix (string_literals c5)))))"
| "gen_program_arm64 node c = Inl BadNode"

subsection \<open>x86-64\<close>

definition sym_prefix :: "Compiler \<Rightarrow> string" where
  "sym_prefix c = (if is_linux c then [] else ''_'')"

definition setcc_x64 :: "string \<Rightarrow> asm_line list" where
  "setcc_x64 ins = [(''    cmpl %%ecx, %%eax'', []), (ins, []), (''    movzbl %%al, %%eax'', [])]"

text \<open>The inner \<open>switch (node->binop.op)\<close> of \<open>gen_expr_x64\<close>.\<close>

definition binop_x64 :: "TokenType \<Rightarrow> Compiler \<Rightarrow> Compiler" where
  "binop_x64 op c =
    (if op = TOK_PLUS then emit c ''    addl %%ecx, %%eax'' []
     else if op = TOK_MINUS then emit c ''    subl %%ecx, %%eax'' []
     else if op = TOK_STAR then emit c ''    imull %%ecx, %%eax'' []
     else if op = TOK_SLASH then emits c [(''    cltd'', []), (''    idivl %%ecx'', [])]
     else if op = TOK_PERCENT then
       emits c [(''    cltd'', []), (''    idivl %%ecx'', []), (''    movl %%edx, %%eax'', [])]
     else if op = TOK_EQ then emits c (setcc_x64 ''    sete %%al'')
     else if op = TOK_NE then emits c (setcc_x64 ''    setne %%al'')
     else if op = TOK_LT then emits c (setcc_x64 ''    setl %%al'')
     else if op = TOK_GT then emits c (setcc_x64 ''    setg %%al'')
     else if op = TOK_LE then emits c (setcc_x64 ''    setle %%al'')
     else if op = TOK_GE then emits c (setcc_x64 ''    setge %%al'')
     else if op = TOK_AND then
       (let (lbl, c1) = new_label c in
        emits c1 [(''    testl %%eax, %%eax'', []), (''    je L%d'', [I lbl]),
                  (''    movl %%ecx, %%eax'', []), (''L%d:'', [I lbl]),
                  (''    testl %%eax, %%eax'', []), (''    setne %%al'', []),
                  (''    movzbl %%al, %%eax'', [])])
     else if op = TOK_OR then
       (let (lbl, c1) = new_label c in
        emits c1 [(''    testl %%eax, %%eax'', []), (''    jne L%d'', [I lbl]),
                  (''    movl %%ecx, %%eax'', []), (''L%d:'', [I lbl]),
                  (''    testl %%eax, %%eax'', []), (''    setne %%al'', []),
                  (''    movzbl %%al, %%eax'', [])])
     else c)"

definition unop_x64 :: "TokenType \<Rightarrow> Compiler \<Rightarrow> Compiler" where
  "unop_x64 op c =
    (if op = TOK_MINUS then emit c ''    negl %%eax'' []
     else if op = TOK_NOT then
       emits c [(''    testl %%eax, %%eax'', []), (''    sete %%al'', []), (''    movzbl %%al, %%eax'', [])]
     else c)"

definition store_var_x64 :: "Symbol \<Rightarrow> string \<Rightarrow> Compiler \<Rightarrow> Compiler" where
  "store_var_x64 sy nm c =
    (if is_global sy then emit c ''    movl %%eax, %s%s(%%rip)'' [S (sym_prefix c), S nm]
     else if is_param sy then emit c ''    movl %%eax, %d(%%rbp)'' [I (- (param_index sy + 1) * 8)]
     else emit c ''    movl %%eax, -%d(%%rbp)'' [I (offset sy)])"

text \<open>The address of an array into \<open>%rcx\<close>.\<close>

definition array_base_x64 :: "Symbol \<Rightarrow> string \<Rightarrow> Compiler \<Rightarrow> Compiler" where
  "array_base_x64 sy nm c =
    (if is_global sy then emit c ''    leaq %s%s(%%rip), %%rcx'' [S (sym_prefix c), S nm]
     else emit c ''    leaq -%d(%%rbp), %%rcx'' [I (offset sy)])"

definition regs_x64 :: "string list" where
  "regs_x64 = [''rdi'', ''rsi'', ''rdx'', ''rcx'', ''r8'', ''r9'']"

text \<open>The pops of the call arguments: \<open>for (i = 0; i < nargs && i < 6; i++)\<close>.\<close>

definition pop_args_x64 :: "nat \<Rightarrow> Compiler \<Rightarrow> Compiler" where
  "pop_args_x64 nargs c =
     emits c (map (\<lambda>i. (''    popq %%%s'', [S (regs_x64 ! i)])) [0 ..< min nargs 6])"

definition call_x64 :: "string \<Rightarrow> Compiler \<Rightarrow> Compiler" where
  "call_x64 f c =
     emits c [(''    pushq %%rbx'', []), (''    movq %%rsp, %%rbx'', []),
              (''    andq $-16, %%rsp'', []), (''    xorl %%eax, %%eax'', []),
              (''    callq %s%s'', [S (sym_prefix c), S f]),
              (''    movq %%rbx, %%rsp'', []), (''    popq %%rbx'', [])]"

fun gen_expr_x64 :: "AST \<Rightarrow> Compiler \<Rightarrow> failure + Compiler"
  and gen_args_x64 :: "AST list \<Rightarrow> Compiler \<Rightarrow> failure + Compiler"
where
  "gen_expr_x64 (AST_NUM v) c = Inr (emit c ''    movl $%d, %%eax'' [I v])"
| "gen_expr_x64 (AST_STR s) c =
    bindE (add_string c s) (\<lambda>(idx, c1).
      Inr (emit c1 ''    leaq %sstr%d(%%rip), %%rax'' [S (sym_prefix c1), I idx]))"
| "gen_expr_x64 (AST_VAR nm) c =
    (case find_symbol c nm of
       None \<Rightarrow> error c (''Undefined variable: '' @ nm)
     | Some sy \<Rightarrow>
        if is_global sy then
          (if is_array sy then Inr (emit c ''    leaq %s%s(%%rip), %%rax'' [S (sym_prefix c), S nm])
           else Inr (emit c ''    movl %s%s(%%rip), %%eax'' [S (sym_prefix c), S nm]))
        else if is_param sy then
          Inr (emit c ''    movl %d(%%rbp), %%eax'' [I (- (param_index sy + 1) * 8)])
        else Inr (emit c ''    movl -%d(%%rbp), %%eax'' [I (offset sy)]))"
| "gen_expr_x64 (AST_ADDR nm) c =
    (case find_symbol c nm of
       None \<Rightarrow> error c (''Undefined variable: '' @ nm)
     | Some sy \<Rightarrow>
        if is_global sy then Inr (emit c ''    leaq %s%s(%%rip), %%rax'' [S (sym_prefix c), S nm])
        else Inr (emit c ''    leaq -%d(%%rbp), %%rax'' [I (offset sy)]))"
| "gen_expr_x64 (AST_ARRAY_ACCESS nm idx) c =
    (case find_symbol c nm of
       None \<Rightarrow> error c (''Undefined variable: '' @ nm)
     | Some sy \<Rightarrow>
        bindE (gen_expr_x64 idx c) (\<lambda>c1.
          let c2 = emit c1 ''    pushq %%rax'' [];
              c3 = array_base_x64 sy nm c2
          in Inr (emits c3 [(''    popq %%rax'', []), (''    movl (%%rcx,%%rax,4), %%eax'', [])])))"
| "gen_expr_x64 (AST_BINOP op l r) c =
    bindE (gen_expr_x64 l c) (\<lambda>c1.
    bindE (gen_expr_x64 r (emit c1 ''    pushq %%rax'' [])) (\<lambda>c2.
      Inr (binop_x64 op (emits c2 [(''    movl %%eax, %%ecx'', []), (''    popq %%rax'', [])]))))"
| "gen_expr_x64 (AST_UNOP op e) c =
    bindE (gen_expr_x64 e c) (\<lambda>c1. Inr (unop_x64 op c1))"
| "gen_expr_x64 (AST_ASSIGN left right op) c =
    bindE (gen_expr_x64 right c) (\<lambda>c1.
      case left of
        AST_VAR nm \<Rightarrow>
          (case find_symbol c1 nm of
             None \<Rightarrow> error c1 (''Undefined variable: '' @ nm)
           | Some sy \<Rightarrow>
              bindE (if op \<noteq> NUL then
                       bindE (gen_expr_x64 left (emit c1 ''    pushq %%rax'' [])) (\<lambda>c2.
                         Inr (emits c2 [(''    movl %%eax, %%ecx'', []), (''    popq %%rax'', []),
                                (if op = CHR ''+'' then (''    addl %%ecx, %%eax'', [])
                                 else (''    subl %%eax, %%ecx'' @ [NL] @ ''    movl %%ecx, %%eax'', []))]))
                     else Inr c1) (\<lambda>c3.
              Inr (store_var_x64 sy nm c3)))
      | AST_ARRAY_ACCESS nm idx \<Rightarrow>
          bindE (gen_expr_x64 idx (emit c1 ''    pushq %%rax'' [])) (\<lambda>c2.
            let c3 = emit c2 ''    pushq %%rax'' [] in
            case find_symbol c3 nm of
              None \<Rightarrow> Inl NullDeref
            | Some sy \<Rightarrow>
                Inr (emits (array_base_x64 sy nm c3)
                       [(''    popq %%rax'', []), (''    popq %%rdx'', []),
                        (''    movl %%edx, (%%rcx,%%rax,4)'', []), (''    movl %%edx, %%eax'', [])]))
      | _ \<Rightarrow> Inr c1)"
| "gen_expr_x64 (AST_CALL f args) c =
    bindE (gen_args_x64 args c) (\<lambda>c1.
      Inr (call_x64 f (pop_args_x64 (length args) c1)))"
| "gen_expr_x64 (AST_IF a b e) c = error c ''Cannot generate expression''"
| "gen_expr_x64 (AST_WHILE a b) c = error c ''Cannot generate expression''"
| "gen_expr_x64 (AST_FOR i a u b) c = error c ''Cannot generate expression''"
| "gen_expr_x64 (AST_RETURN v) c = error c ''Cannot generate expression''"
| "gen_expr_x64 (AST_BLOCK ss) c = error c ''Cannot generate expression''"
| "gen_expr_x64 (AST_FUNC f ps b v) c = error c ''Cannot generate expression''"
| "gen_expr_x64 (AST_VARDECL nm i a n) c = error c ''Cannot generate expression''"
| "gen_expr_x64 (AST_PROGRAM fs gs) c = error c ''Cannot generate expression''"
| "gen_args_x64 [] c = Inr c"
| "gen_args_x64 (a # as) c =
    bindE (gen_args_x64 as c) (\<lambda>c1.
    bindE (gen_expr_x64 a c1) (\<lambda>c2.
      Inr (emit c2 ''    pushq %%rax'' [])))"

definition epilogue_x64 :: "asm_line list" where
  "epilogue_x64 = [(''    movq %%rbp, %%rsp'', []), (''    popq %%rbp'', []), (''    retq'', [])]"

fun gen_stmt_x64 :: "AST \<Rightarrow> Compiler \<Rightarrow> failure + Compiler"
  and gen_stmts_x64 :: "AST list \<Rightarrow> Compiler \<Rightarrow> failure + Compiler"
where
  "gen_stmt_x64 (AST_VARDECL nm init arr sz) c =
    bindE (add_symbol c nm False False 0) (\<lambda>c1.
      let c2 = (if arr then set_array c1 sz else c1) in
      case init of
        None \<Rightarrow> Inr c2
      | Some e \<Rightarrow>
          bindE (gen_expr_x64 e c2) (\<lambda>c3.
            Inr (emit c3 ''    movl %%eax, -%d(%%rbp)'' [I (offset (last_symbol c2))])))"
| "gen_stmt_x64 (AST_IF cond then_branch else_branch) c =
    (let (else_label, c1) = new_label c; (end_label, c2) = new_label c1 in
     bindE (gen_expr_x64 cond c2) (\<lambda>c3.
     bindE (gen_stmt_x64 then_branch
              (emits c3 [(''    testl %%eax, %%eax'', []), (''    je L%d'', [I else_label])])) (\<lambda>c4.
     bindE (case else_branch of
              None \<Rightarrow> Inr (emits c4 [(''    jmp L%d'', [I end_label]), (''L%d:'', [I else_label])])
            | Some e \<Rightarrow>
                gen_stmt_x64 e (emits c4 [(''    jmp L%d'', [I end_label]), (''L%d:'', [I else_label])]))
       (\<lambda>c5. Inr (emit c5 ''L%d:'' [I end_label])))))"
| "gen_stmt_x64 (AST_WHILE cond body) c =
    (let (start_label, c1) = new_label c; (end_label, c2) = new_label c1 in
     bindE (gen_expr_x64 cond (emit c2 ''L%d:'' [I start_label])) (\<lambda>c3.
     bindE (gen_stmt_x64 body
              (emits c3 [(''    testl %%eax, %%eax'', []), (''    je L%d'', [I end_label])])) (\<lambda>c4.
       Inr (emits c4 [(''    jmp L%d'', [I start_label]), (''L%d:'', [I end_label])]))))"
| "gen_stmt_x64 (AST_FOR init cond update body) c =
    (let (start_label, c1) = new_label c; (end_label, c2) = new_label c1 in
     bindE (case init of None \<Rightarrow> Inr c2 | Some i \<Rightarrow> gen_stmt_x64 i c2) (\<lambda>c3.
     bindE (case cond of
              None \<Rightarrow> Inr (emit c3 ''L%d:'' [I start_label])
            | Some e \<Rightarrow>
                bindE (gen_expr_x64 e (emit c3 ''L%d:'' [I start_label])) (\<lambda>c4.
                  Inr (emits c4 [(''    testl %%eax, %%eax'', []), (''    je L%d'', [I end_label])])))
       (\<lambda>c5.
     bindE (gen_stmt_x64 body c5) (\<lambda>c6.
     bindE (case update of None \<Rightarrow> Inr c6 | Some u \<Rightarrow> gen_expr_x64 u c6) (\<lambda>c7.
       Inr (emits c7 [(''    jmp L%d'', [I start_label]), (''L%d:'', [I end_label])]))))))"
| "gen_stmt_x64 (AST_RETURN v) c =
    bindE (case v of None \<Rightarrow> Inr c | Some e \<Rightarrow> gen_expr_x64 e c) (\<lambda>c1.
      Inr (emits c1 epilogue_x64))"
| "gen_stmt_x64 (AST_BLOCK stmts) c = gen_stmts_x64 stmts c"
| "gen_stmt_x64 node c = gen_expr_x64 node c"
| "gen_stmts_x64 [] c = Inr c"
| "gen_stmts_x64 (st # sts) c = bindE (gen_stmt_x64 st c) (\<lambda>c1. gen_stmts_x64 sts c1)"

text \<open>The parameter loop of \<open>gen_func_x64\<close>, from index \<open>i\<close> on:
  \<open>for (i = 0; i < nparams && i < 6; i++)\<close>.\<close>

fun save_params_x64 :: "nat \<Rightarrow> string list \<Rightarrow> Compiler \<Rightarrow> failure + Compiler" where
  "save_params_x64 i [] c = Inr c"
| "save_params_x64 i (p # ps) c =
    (if i < 6 then
       bindE (add_symbol c p False True (int i)) (\<lambda>c1.
         save_params_x64 (i + 1) ps
           (emit c1 ''    movq %%%s, %d(%%rbp)'' [S (regs_x64 ! i), I (- (int i + 1) * 8)]))
     else Inr c)"

text \<open>\<open>gen_func_x64\<close> up to the point where the body is generated.\<close>

definition func_entry_x64 :: "string \<Rightarrow> string list \<Rightarrow> Compiler \<Rightarrow> failure + Compiler" where
  "func_entry_x64 f params c =
    (let prefix = (if is_linux c then [] else ''_'');
         c1 = emits (c\<lparr>stack_offset := 0\<rparr>)
                [(''.globl %s%s'', [S prefix, S f]), (''%s%s:'', [S prefix, S f]),
                 (''    pushq %%rbp'', []), (''    movq %%rsp, %%rbp'', []),
                 (''    subq $256, %%rsp'', [])]
     in bindE (save_params_x64 0 params c1) (\<lambda>c2.
          Inr (c2\<lparr>stack_offset := int (length params) * 8\<rparr>)))"

fun gen_func_x64 :: "AST \<Rightarrow> Compiler \<Rightarrow> failure + Compiler" where
  "gen_func_x64 (AST_FUNC f params body is_void) c =
    bindE (func_entry_x64 f params c) (\<lambda>c1.
    bindE (gen_stmt_x64 body c1) (\<lambda>c2.
      Inr ((emits c2 (epilogue_x64 @ [([], [])]))\<lparr>nsymbols := nsymbols c\<rparr>)))"
| "gen_func_x64 node c = Inl BadNode"

fun gen_funcs_x64 :: "AST list \<Rightarrow> Compiler \<Rightarrow> failure + Compiler" where
  "gen_funcs_x64 [] c = Inr c"
| "gen_funcs_x64 (f # fs) c = bindE (gen_func_x64 f c) (\<lambda>c1. gen_funcs_x64 fs c1)"

fun gen_program_x64 :: "AST \<Rightarrow> Compiler \<Rightarrow> failure + Compiler" where
  "gen_program_x64 (AST_PROGRAM funcs globals) c =
    bindE (add_globals globals c) (\<lambda>c1.
    bindE (gen_funcs_x64 funcs
             (emits c1 [(if is_linux c1 then (''.section .text'', [])
                         else (''.section __TEXT,__text'', [])), ([], [])])) (\<lambda>c2.
      let c3 = emit c2 (if is_linux c2 then ''.section .data'' else ''.section __DATA,__data'') [];
          prefix = (if is_linux c3 then [] else ''_'');
          c4 = emits c3 (concat (map (global_data False prefix) globals));
          c5 = emit c4 (if is_linux c4 then ''.section .rodata'' else ''.section __TEXT,__cstring'') []
      in Inr (emits c5 (string_data prefix (string_literals c5)))))"
| "gen_program_x64 node c = Inl BadNode"

section \<open>The driver\<close>

text \<open>\<open>compile\<close>: the target and the host are fixed when the compiler itself is built; here they
  are the two flags. \<open>fuel\<close> bounds the recursion of the parser.\<close>

definition compile :: "bool \<Rightarrow> bool \<Rightarrow> nat \<Rightarrow> string \<Rightarrow> failure + Compiler" where
  "compile arm linux fuel text =
    bindE (next_token (init_compiler arm linux text)) (\<lambda>c.
    bindE (do_parse_program fuel c) (\<lambda>(program, c1).
      if is_arm64 c1 then gen_program_arm64 program c1 else gen_program_x64 program c1))"

section \<open>Meaning of the emitted instructions\<close>

text \<open>What the claims say about the value a piece of emitted code computes needs the meaning
  of the instructions, which is not part of the compiler. The two interpreters below give
  it, following the instruction set manuals, for the instructions of number literals and
  of the logical operators only; any other line stops them with \<open>None\<close>. The jumps of this
  code go forward: a taken jump skips the lines up to the definition of its label. The
  first argument of the interpreter is the label being looked for, if any.\<close>

fun int_arg :: "arg list \<Rightarrow> int option" where
  "int_arg [I v] = Some v"
| "int_arg args = None"

record arm64_state =
  x0 :: "64 word"
  x1 :: "64 word"
  flag_z :: bool

definition w0 :: "arm64_state \<Rightarrow> 32 word" where
  "w0 m = ucast (x0 m)"

definition w1 :: "arm64_state \<Rightarrow> 32 word" where
  "w1 m = ucast (x1 m)"





record x64_state =
  rax :: "64 word"
  rcx :: "64 word"
  flag_zf :: bool

definition eax :: "x64_state \<Rightarrow> 32 word" where
  "eax m = ucast (rax m)"

definition ecx :: "x64_state \<Rightarrow> 32 word" where
  "ecx m = ucast (rcx m)"

text \<open>A write to \<open>%eax\<close> clears the upper half of \<open>%rax\<close>; a write to \<open>%al\<close> leaves the other
  56 bits as they are.\<close>

definition set_low_byte :: "64 word \<Rightarrow> 64 word \<Rightarrow> 64 word" where
  "set_low_byte r b = (r AND NOT 0xFF) OR (b AND 0xFF)"

definition low_byte :: "64 word \<Rightarrow> 64 word" where
  "low_byte r = r AND 0xFF"

definition step_x64 :: "asm_line \<Rightarrow> x64_state \<Rightarrow> (int option \<times> x64_state) option" where
  "step_x64 l m =
    (let fmt = fst l; args = snd l in
     if fmt = ''    movl $%d, %%eax'' then
       map_option (\<lambda>v. (None, m\<lparr>rax := ucast (word_of_int v :: 32 word)\<rparr>)) (int_arg args)
     else if fmt = ''    movl %%ecx, %%eax'' then Some (None, m\<lparr>rax := ucast (ecx m)\<rparr>)
     else if fmt = ''    testl %%eax, %%eax'' then Some (None, m\<lparr>flag_zf := (eax m = 0)\<rparr>)
     else if fmt = ''    setne %%al'' then
       Some (None, m\<lparr>rax := set_low_byte (rax m) (if flag_zf m then 0 else 1)\<rparr>)
     else if fmt = ''    movzbl %%al, %%eax'' then Some (None, m\<lparr>rax := low_byte (rax m)\<rparr>)
     else if fmt = ''    je L%d'' then
       map_option (\<lambda>n. (if flag_zf m then Some n else None, m)) (int_arg args)
     else if fmt = ''    jne L%d'' then
       map_option (\<lambda>n. (if \<not> flag_zf m then Some n else None, m)) (int_arg args)
     else if fmt = ''L%d:'' then Some (None, m)
     else None)"

fun exec_x64 :: "int option \<Rightarrow> asm_line list \<Rightarrow> x64_state \<Rightarrow> x64_state option" where
  "exec_x64 None [] m = Some m"
| "exec_x64 (Some n) [] m = None"
| "exec_x64 (Some n) (l # ls) m =
     (if l = (''L%d:'', [I n]) then exec_x64 None ls m else exec_x64 (Some n) ls m)"
| "exec_x64 None (l # ls) m =
     (case step_x64 l m of None \<Rightarrow> None | Some (target, m') \<Rightarrow> exec_x64 target ls m')"

text \<open>The two node kinds the \<open>AST_ASSIGN\<close> case of the generators tests for
  (\<open>left->type == AST_VAR\<close>, \<open>left->type == AST_ARRAY_ACCESS\<close>).\<close>

fun is_lvalue :: "AST \<Rightarrow> bool" where
  "is_lvalue (AST_VAR nm) = True"
| "is_lvalue (AST_ARRAY_ACCESS nm idx) = True"
| "is_lvalue e = False"

text \<open>The live entries that are locals (neither global nor parameter) have an offset that is
  a positive multiple of 4.\<close>

definition locals_ok :: "Compiler \<Rightarrow> bool" where
  "locals_ok c =
     (\<forall>i < nsymbols c.
        is_global (sym_at (symbols c) i) \<or> is_param (sym_at (symbols c) i)
        \<or> (0 < offset (sym_at (symbols c) i) \<and> 4 dvd offset (sym_at (symbols c) i)))"

text \<open>Every array declaration in a statement has a size that is not negative (the parser
  takes the size from a number token).\<close>

fun sizes_ok :: "AST \<Rightarrow> bool" where
  "sizes_ok (AST_VARDECL nm init arr sz) = (if arr then 0 \<le> sz else True)"
| "sizes_ok (AST_IF cond then_branch else_branch) =
     (sizes_ok then_branch \<and> (case else_branch of None \<Rightarrow> True | Some e \<Rightarrow> sizes_ok e))"
| "sizes_ok (AST_WHILE cond body) = sizes_ok body"
| "sizes_ok (AST_FOR init cond update body) =
     ((case init of None \<Rightarrow> True | Some i \<Rightarrow> sizes_ok i) \<and> sizes_ok body)"
| "sizes_ok (AST_BLOCK stmts) = list_all sizes_ok stmts"
| "sizes_ok node = True"

text \<open>The part of the state the symbol handling lives in.\<close>

definition frame :: "Compiler \<Rightarrow> Symbol list \<times> nat \<times> int" where
  "frame c = (symbols c, nsymbols c, stack_offset c)"

text \<open>The stack-offset counter is a non-negative multiple of 4 and the locals are as above.\<close>

definition frame_ok :: "Compiler \<Rightarrow> bool" where
  "frame_ok c = (0 \<le> stack_offset c \<and> 4 dvd stack_offset c \<and> locals_ok c)"

text \<open>Generating a statement keeps \<open>frame_ok\<close>.\<close>

definition keeps_arm64 :: "AST \<Rightarrow> bool" where
  "keeps_arm64 st = (\<forall>c c'. gen_stmt_arm64 st c = Inr c' \<longrightarrow> sizes_ok st \<longrightarrow> frame_ok c \<longrightarrow> frame_ok c')"


definition keeps_x64 :: "AST \<Rightarrow> bool" where
  "keeps_x64 st = (\<forall>c c'. gen_stmt_x64 st c = Inr c' \<longrightarrow> sizes_ok st \<longrightarrow> frame_ok c \<longrightarrow> frame_ok c')"

text \<open>The numbers of the control-flow labels a listing defines: the lines written with the
  format \<open>L%d:\<close>, the only ones whose number comes from the label counter. The labels of
  functions, globals and string literals are written with other formats and are not
  counted here; \<open>label_names\<close> below collects the names of all labels by their text.\<close>

definition label_of :: "asm_line \<Rightarrow> int option" where
  "label_of l = (if fst l = ''L%d:'' then int_arg (snd l) else None)"

fun label_defs :: "asm_line list \<Rightarrow> int list" where
  "label_defs [] = []"
| "label_defs (l # ls) = (case label_of l of None \<Rightarrow> label_defs ls | Some n \<Rightarrow> n # label_defs ls)"

text \<open>From state \<open>c\<close> to state \<open>c'\<close> the output has only grown, and the labels defined by the
  new lines are distinct and were all allocated in between.\<close>

definition ext :: "Compiler \<Rightarrow> Compiler \<Rightarrow> bool" where
  "ext c c' =
     (\<exists>ls. out c' = out c @ ls \<and> label_count c \<le> label_count c'
           \<and> distinct (label_defs ls)
           \<and> set (label_defs ls) \<subseteq> {label_count c ..< label_count c'})"

text \<open>Generating a statement extends the output in the sense of \<open>ext\<close>.\<close>

definition ext_stmt_arm64 :: "AST \<Rightarrow> bool" where
  "ext_stmt_arm64 st = (\<forall>c c'. gen_stmt_arm64 st c = Inr c' \<longrightarrow> ext c c')"

definition ext_stmt_x64 :: "AST \<Rightarrow> bool" where
  "ext_stmt_x64 st = (\<forall>c c'. gen_stmt_x64 st c = Inr c' \<longrightarrow> ext c c')"

text \<open>The token types at which one of the loops of the expression parser, or
  \<open>parse_assignment\<close>, goes on with a further operand: an expression ends before any other
  token.\<close>

definition continues_expr :: "TokenType \<Rightarrow> bool" where
  "continues_expr t = (t \<in> {TOK_STAR, TOK_SLASH, TOK_PERCENT, TOK_PLUS, TOK_MINUS,
     TOK_LT, TOK_GT, TOK_LE, TOK_GE, TOK_EQ, TOK_NE, TOK_AND, TOK_OR,
     TOK_ASSIGN, TOK_PLUSEQ, TOK_MINUSEQ})"







text \<open>The text of an output line. \<open>emit\<close> prints its format with \<open>vfprintf\<close>; the formats of
  this program use the directives \<open>%d\<close>, \<open>%s\<close> and \<open>%%\<close> only. A directive whose argument
  is missing or of the other kind prints nothing here (the generators never do that with a
  label line).\<close>

fun dec_nat :: "nat \<Rightarrow> string" where
  "dec_nat n = (if n < 10 then [char_of (48 + n)]
                else dec_nat (n div 10) @ [char_of (48 + n mod 10)])"

declare dec_nat.simps [simp del]

definition dec :: "int \<Rightarrow> string" where
  "dec v = (if v < 0 then CHR ''-'' # dec_nat (nat (- v)) else dec_nat (nat v))"

fun printf :: "string \<Rightarrow> arg list \<Rightarrow> string" where
  "printf [] args = []"
| "printf [ch] args = [ch]"
| "printf (ch # d # fmt) args =
     (if ch = CHR ''%'' then
        (if d = CHR ''%'' then CHR ''%'' # printf fmt args
         else if d = CHR ''d'' then
           (case args of I v # rest \<Rightarrow> dec v @ printf fmt rest | _ \<Rightarrow> printf fmt args)
         else if d = CHR ''s'' then
           (case args of S s # rest \<Rightarrow> s @ printf fmt rest | _ \<Rightarrow> printf fmt args)
         else ch # printf (d # fmt) args)
      else ch # printf (d # fmt) args)"

text \<open>The label names the assembly file defines, in the order of the file: a line whose
  text ends in a colon defines the label named by the text before the colon. These are the
  lines of the control-flow labels (\<open>L%d:\<close>), of the functions (\<open>_%s:\<close>, \<open>%s%s:\<close>), of the
  globals (\<open>%s%s:\<close>) and of the string literals (\<open>%sstr%d:\<close>).\<close>

definition label_name :: "asm_line \<Rightarrow> string option" where
  "label_name l =
     (let t = printf (fst l) (snd l)
      in if t \<noteq> [] \<and> last t = CHR '':'' then Some (butlast t) else None)"

definition label_names :: "asm_line list \<Rightarrow> string list" where
  "label_names ls = List.map_filter label_name ls"

section \<open>Auxiliary lemmas\<close>


lemma bindE_Inr_right: "bindE m Inr = m"
  by (cases m) simp_all



lemma out_emit [simp]: "out (emit c f a) = out c @ [(f, a)]"
  by (simp add: emit_def)

lemma emits_Nil [simp]: "emits c [] = c"
  by (simp add: emits_def)

lemma emits_Cons [simp]: "emits c (l # ls) = emits (emit c (fst l) (snd l)) ls"
  by (cases l) (simp add: emits_def)

lemma ucast_32_64_32 [simp]: "(ucast (ucast (w :: 32 word) :: 64 word) :: 32 word) = w"
  by (simp add: ucast_up_ucast_id is_up)

lemma byte_mask: "(255 :: 64 word) = mask 8"
  by (simp add: mask_eq_exp_minus_1)

lemma low_byte_set_low_byte_0 [simp]: "low_byte (set_low_byte r 0) = 0"
  unfolding low_byte_def set_low_byte_def
  by (rule bit_word_eqI) (auto simp: bit_simps)

lemma low_byte_set_low_byte_1 [simp]: "low_byte (set_low_byte r 1) = 1"
  unfolding low_byte_def set_low_byte_def byte_mask
  by (rule bit_word_eqI) (auto simp: bit_simps)







lemma frame_emit [simp]: "frame (emit c f a) = frame c"
  by (simp add: frame_def emit_def)

lemma frame_emits [simp]: "frame (emits c ls) = frame c"
  by (induction ls arbitrary: c) simp_all

lemma frame_binop_arm64 [simp]: "frame (binop_arm64 op c) = frame c"
proof -
  have "frame (c\<lparr>label_count := n\<rparr>) = frame c" for n
    by (simp add: frame_def)
  then show ?thesis
    by (simp add: binop_arm64_def new_label_def del: emits_Cons)
qed

lemma frame_unop_arm64 [simp]: "frame (unop_arm64 op c) = frame c"
  by (simp add: unop_arm64_def del: emits_Cons)

lemma frame_store_var_arm64 [simp]: "frame (store_var_arm64 sy nm c) = frame c"
  by (simp add: store_var_arm64_def del: emits_Cons)

lemma frame_array_base_arm64 [simp]: "frame (array_base_arm64 sy nm c) = frame c"
  by (simp add: array_base_arm64_def del: emits_Cons)

lemma frame_pop_args_arm64 [simp]: "frame (pop_args_arm64 n c) = frame c"
  by (simp add: pop_args_arm64_def)

lemma frame_add_string: "add_string c s = Inr (i, c') \<Longrightarrow> frame c' = frame c"
  by (auto simp: add_string_def frame_def split: if_splits)

lemma frame_new_label [simp]: "frame (snd (new_label c)) = frame c"
  by (simp add: new_label_def frame_def)

lemma find_symbol_frame: "frame c' = frame c \<Longrightarrow> find_symbol c' nm = find_symbol c nm"
  by (simp add: find_symbol_def frame_def)

lemma gen_expr_arm64_frame:
  "gen_expr_arm64 e c = Inr c' \<Longrightarrow> frame c' = frame c"
  "gen_args_arm64 es c = Inr c' \<Longrightarrow> frame c' = frame c"
proof (induction e c and es c arbitrary: c' and c' rule: gen_expr_arm64_gen_args_arm64.induct)
  case (1 v c)
  then show ?case by (auto simp: Let_def split: if_splits)
next
  case (2 s c)
  then show ?case by (auto simp: bindE_Inr_iff dest: frame_add_string simp del: emits_Cons)
next
  case (3 nm c)
  then show ?case by (auto simp: error_def Let_def split: option.splits if_splits simp del: emits_Cons)
next
  case (4 nm c)
  then show ?case by (auto simp: error_def Let_def split: option.splits if_splits simp del: emits_Cons)
next
  case (5 nm idx c)
  then show ?case 
    by (auto simp: error_def Let_def bindE_Inr_iff split: option.splits if_splits simp del: emits_Cons)
next
  case (6 op l r c)
  then show ?case
    by (auto simp: bindE_Inr_iff simp del: emits_Cons)
next
  case (7 op e c)
  then show ?case by (auto simp: bindE_Inr_iff)
next
  case (8 left right op c)
  show ?case
  proof (cases left)
    case (AST_VAR nm)
    with "8.prems" "8.IH"(1,2) show ?thesis
      by (auto simp: error_def bindE_Inr_iff split: option.splits if_splits simp del: emits_Cons)
  next
    case (AST_ARRAY_ACCESS nm idx)
    with "8.prems" "8.IH"(1,3) show ?thesis
      by (auto simp: Let_def bindE_Inr_iff split: option.splits if_splits simp del: emits_Cons)
  qed (use "8.prems" "8.IH"(1) in \<open>auto simp: bindE_Inr_iff\<close>)
next
  case (9 f args c)
  then show ?case by (auto simp: bindE_Inr_iff)
next
  case (19 a as c)
  then show ?case by (auto simp: bindE_Inr_iff) 
qed (auto simp: error_def)

lemma frame_binop_x64 [simp]: "frame (binop_x64 op c) = frame c"
proof -
  have "frame (c\<lparr>label_count := n\<rparr>) = frame c" for n
    by (simp add: frame_def)
  then show ?thesis
    by (simp add: binop_x64_def new_label_def setcc_x64_def del: emits_Cons)
qed

lemma frame_unop_x64 [simp]: "frame (unop_x64 op c) = frame c"
  by (simp add: unop_x64_def del: emits_Cons)

lemma frame_store_var_x64 [simp]: "frame (store_var_x64 sy nm c) = frame c"
  by (simp add: store_var_x64_def del: emits_Cons)

lemma frame_array_base_x64 [simp]: "frame (array_base_x64 sy nm c) = frame c"
  by (simp add: array_base_x64_def del: emits_Cons)

lemma frame_pop_args_x64 [simp]: "frame (pop_args_x64 n c) = frame c"
  by (simp add: pop_args_x64_def)

lemma frame_call_x64 [simp]: "frame (call_x64 f c) = frame c"
  by (simp add: call_x64_def del: emits_Cons)


lemma gen_expr_x64_frame:
  "gen_expr_x64 e c = Inr c' \<Longrightarrow> frame c' = frame c"
  "gen_args_x64 es c = Inr c' \<Longrightarrow> frame c' = frame c"
proof (induction e c and es c arbitrary: c' and c' rule: gen_expr_x64_gen_args_x64.induct)
  case (1 v c)
  then show ?case by (auto simp: Let_def split: if_splits)
next
  case (2 s c)
  then show ?case by (auto simp: bindE_Inr_iff dest: frame_add_string simp del: emits_Cons)
next
  case (3 nm c)
  then show ?case by (auto simp: error_def Let_def split: option.splits if_splits simp del: emits_Cons)
next
  case (4 nm c)
  then show ?case by (auto simp: error_def Let_def split: option.splits if_splits simp del: emits_Cons)
next
  case (5 nm idx c)
  then show ?case 
    by (auto simp: error_def Let_def bindE_Inr_iff split: option.splits if_splits simp del: emits_Cons)
next
  case (6 op l r c)
  then show ?case
    by (auto simp: bindE_Inr_iff simp del: emits_Cons)
next
  case (7 op e c)
  then show ?case by (auto simp: bindE_Inr_iff)
next
  case (8 left right op c)
  show ?case
  proof (cases left)
    case (AST_VAR nm)
    with "8.prems" "8.IH"(1,2) show ?thesis
      by (auto simp: error_def bindE_Inr_iff split: option.splits if_splits simp del: emits_Cons)
  next
    case (AST_ARRAY_ACCESS nm idx)
    with "8.prems" "8.IH"(1,3) show ?thesis
      by (auto simp: Let_def bindE_Inr_iff split: option.splits if_splits simp del: emits_Cons)
  qed (use "8.prems" "8.IH"(1) in \<open>auto simp: bindE_Inr_iff\<close>)
next
  case (9 f args c)
  then show ?case by (auto simp: bindE_Inr_iff)
next
  case (19 a as c)
  then show ?case by (auto simp: bindE_Inr_iff) 
qed (auto simp: error_def)

lemma sym_at_sym_write [simp]:
  "sym_at (sym_write syms i sy) j = (if j = i then sy else sym_at syms j)"
  by (auto simp: sym_at_def sym_write_def nth_append)

lemma frame_ok_cong: "frame c' = frame c \<Longrightarrow> frame_ok c' = frame_ok c"
  by (simp add: frame_def frame_ok_def locals_ok_def)

lemma add_local_frame_ok:
  assumes "add_symbol c nm False False idx = Inr c1" and "frame_ok c" and "arr \<Longrightarrow> 0 \<le> sz"
  shows "frame_ok (if arr then set_array c1 sz else c1)"
proof -
  from assms(1) have c1: "c1 = c\<lparr>symbols := sym_write (symbols c) (nsymbols c)
        ((sym_at (symbols c) (nsymbols c))\<lparr>name := nm, is_global := False, is_param := False,
           param_index := idx, is_array := False, array_size := 0, offset := stack_offset c + 8\<rparr>),
      nsymbols := nsymbols c + 1, stack_offset := stack_offset c + 8\<rparr>"
    by (auto simp: add_symbol_def Let_def split: if_splits)
  show ?thesis
  proof (cases arr)
    case False
    with assms(2) show ?thesis
      unfolding c1 frame_ok_def locals_ok_def by (auto simp: less_Suc_eq)
  next
    case True
    with assms(3) have "0 \<le> sz" by simp
    with True assms(2) show ?thesis
      unfolding c1 frame_ok_def locals_ok_def set_array_def Let_def
      by (auto simp: less_Suc_eq)
  qed
qed

lemma add_nonlocal_locals_ok:
  assumes "add_symbol c nm glob param idx = Inr c1" and "glob \<or> param" and "locals_ok c"
  shows "locals_ok c1"
  using assms unfolding locals_ok_def
  by (auto simp: add_symbol_def Let_def less_Suc_eq split: if_splits)

lemma locals_ok_emit [simp]: "locals_ok (emit c f a) = locals_ok c"
  by (simp add: locals_ok_def emit_def)

lemma save_params_arm64_locals_ok:
  "save_params_arm64 i ps c = Inr c' \<Longrightarrow> locals_ok c \<Longrightarrow> locals_ok c'"
proof (induction ps arbitrary: i c)
  case Nil
  then show ?case by simp
next
  case (Cons p ps)
  from Cons.prems(1) obtain c1 where a: "add_symbol c p False True (int i) = Inr c1"
    and r: "save_params_arm64 (i + 1) ps
        (emit c1 ''    str x%d, [x29, #%d]'' [I (int i), I (- (int i + 1) * 8)]) = Inr c'"
    by (auto simp: bindE_Inr_iff)
  from add_nonlocal_locals_ok [OF a _ Cons.prems(2)] have "locals_ok c1" by simp
  with Cons.IH [OF r] show ?case by simp
qed

lemma save_params_x64_locals_ok:
  "save_params_x64 i ps c = Inr c' \<Longrightarrow> locals_ok c \<Longrightarrow> locals_ok c'"
proof (induction ps arbitrary: i c)
  case Nil
  then show ?case by simp
next
  case (Cons p ps)
  show ?case
  proof (cases "i < 6")
    case True
    with Cons.prems(1) obtain c1 where a: "add_symbol c p False True (int i) = Inr c1"
      and r: "save_params_x64 (i + 1) ps
          (emit c1 ''    movq %%%s, %d(%%rbp)'' [S (regs_x64 ! i), I (- (int i + 1) * 8)]) = Inr c'"
      by (auto simp: bindE_Inr_iff)
    from add_nonlocal_locals_ok [OF a _ Cons.prems(2)] have "locals_ok c1" by simp
    with Cons.IH [OF r] show ?thesis by simp
  next
    case False
    with Cons.prems show ?thesis by simp
  qed
qed

lemma frame_fields:
  "frame c' = frame c \<Longrightarrow> symbols c' = symbols c"
  "frame c' = frame c \<Longrightarrow> nsymbols c' = nsymbols c"
  "frame c' = frame c \<Longrightarrow> stack_offset c' = stack_offset c"
  by (simp_all add: frame_def)

lemma frame_label_count [simp]: "frame (c\<lparr>label_count := n\<rparr>) = frame c"
  by (simp add: frame_def)

lemma frame_ok_emit [simp]: "frame_ok (emit c f a) = frame_ok c"
  by (rule frame_ok_cong) simp

lemma frame_ok_emits [simp]: "frame_ok (emits c ls) = frame_ok c"
  by (rule frame_ok_cong) simp

lemma frame_ok_label_count [simp]: "frame_ok (c\<lparr>label_count := n\<rparr>) = frame_ok c"
  by (rule frame_ok_cong) simp

lemma gen_expr_arm64_frame_ok: "gen_expr_arm64 e c = Inr c' \<Longrightarrow> frame_ok c' = frame_ok c"
  by (rule frame_ok_cong) (rule gen_expr_arm64_frame)

lemma gen_expr_x64_frame_ok: "gen_expr_x64 e c = Inr c' \<Longrightarrow> frame_ok c' = frame_ok c"
  by (rule frame_ok_cong) (rule gen_expr_x64_frame)

lemma func_entry_arm64_frame_ok:
  assumes "func_entry_arm64 f ps c = Inr c1" and "locals_ok c"
  shows "frame_ok c1"
proof -
  from assms(1) obtain c0 c2 where s: "save_params_arm64 0 ps c0 = Inr c2"
    and c0: "frame c0 = frame (c\<lparr>stack_offset := 0\<rparr>)"
    and c1: "c1 = c2\<lparr>stack_offset := int (length ps) * 8\<rparr>"
    unfolding func_entry_arm64_def Let_def by (auto simp: bindE_Inr_iff simp del: emits_Cons)
  have "locals_ok c0"
    using assms(2) frame_fields(1,2) [OF c0] by (simp add: locals_ok_def)
  from save_params_arm64_locals_ok [OF s this] have "locals_ok c2" .
  then show ?thesis
    unfolding c1 frame_ok_def by (simp add: locals_ok_def)
qed

lemma func_entry_x64_frame_ok:
  assumes "func_entry_x64 f ps c = Inr c1" and "locals_ok c"
  shows "frame_ok c1"
proof -
  from assms(1) obtain c0 c2 where s: "save_params_x64 0 ps c0 = Inr c2"
    and c0: "frame c0 = frame (c\<lparr>stack_offset := 0\<rparr>)"
    and c1: "c1 = c2\<lparr>stack_offset := int (length ps) * 8\<rparr>"
    unfolding func_entry_x64_def Let_def by (auto simp: bindE_Inr_iff simp del: emits_Cons)
  have "locals_ok c0"
    using assms(2) frame_fields(1,2) [OF c0] by (simp add: locals_ok_def)
  from save_params_x64_locals_ok [OF s this] have "locals_ok c2" .
  then show ?thesis
    unfolding c1 frame_ok_def by (simp add: locals_ok_def)
qed

lemma gen_expr_arm64_keeps_frame_ok: "gen_expr_arm64 e c = Inr c' \<Longrightarrow> frame_ok c \<Longrightarrow> frame_ok c'"
  by (simp add: gen_expr_arm64_frame_ok)

lemma keeps_arm64D: "keeps_arm64 st \<Longrightarrow> gen_stmt_arm64 st c = Inr c' \<Longrightarrow> sizes_ok st \<Longrightarrow> frame_ok c \<Longrightarrow> frame_ok c'"
  by (auto simp: keeps_arm64_def)

lemma keeps_arm64_expr:
  "(\<And>c. gen_stmt_arm64 st c = gen_expr_arm64 st c) \<Longrightarrow> keeps_arm64 st"
  by (auto simp: keeps_arm64_def dest: gen_expr_arm64_keeps_frame_ok)

lemma gen_stmts_arm64_frame_ok:
  "(\<And>st. st \<in> set sts \<Longrightarrow> keeps_arm64 st) \<Longrightarrow> gen_stmts_arm64 sts c = Inr c' \<Longrightarrow>
     list_all sizes_ok sts \<Longrightarrow> frame_ok c \<Longrightarrow> frame_ok c'"
proof (induction sts arbitrary: c)
  case Nil
  then show ?case by simp
next
  case (Cons st sts)
  from Cons.prems(2) obtain c1 where s: "gen_stmt_arm64 st c = Inr c1" and r: "gen_stmts_arm64 sts c1 = Inr c'"
    by (auto simp: bindE_Inr_iff)
  from Cons.prems have "frame_ok c1"
    using keeps_arm64D [OF _ s] by simp
  with Cons.IH [OF _ r] Cons.prems show ?case by simp
qed

lemma gen_stmt_arm64_keeps: "keeps_arm64 st"
proof (induction st)
  case (AST_VARDECL nm init arr sz)
  show ?case
    unfolding keeps_arm64_def
  proof (intro allI impI)
    fix c c'
    assume p: "gen_stmt_arm64 (AST_VARDECL nm init arr sz) c = Inr c'"
      and sz: "sizes_ok (AST_VARDECL nm init arr sz)" and ok: "frame_ok c"
    from p obtain c1 where a: "add_symbol c nm False False 0 = Inr c1"
      and r: "(case init of None \<Rightarrow> Inr (if arr then set_array c1 sz else c1)
             | Some e \<Rightarrow> bindE (gen_expr_arm64 e (if arr then set_array c1 sz else c1)) (\<lambda>c3.
            Inr (emit c3 ''    str w0, [x29, #-%d]'' [I (offset (last_symbol (if arr then set_array c1 sz else c1)))]))) = Inr c'"
      by (auto simp: bindE_Inr_iff Let_def)
    from sz have "arr \<Longrightarrow> 0 \<le> sz" by simp
    from add_local_frame_ok [OF a ok this]
    have ok2: "frame_ok (if arr then set_array c1 sz else c1)" .
    with r show "frame_ok c'"
      by (auto simp: bindE_Inr_iff split: option.splits dest: gen_expr_arm64_keeps_frame_ok)
  qed
next
  case (AST_IF cond then_branch else_branch)
  then show ?case
    unfolding keeps_arm64_def
    by (auto simp: bindE_Inr_iff new_label_def split: option.splits prod.splits
             dest!: gen_expr_arm64_keeps_frame_ok simp del: emits_Cons)
next
  case (AST_WHILE cond body)
  then show ?case
    unfolding keeps_arm64_def
    by (auto simp: bindE_Inr_iff new_label_def split: option.splits prod.splits
             dest!: gen_expr_arm64_keeps_frame_ok simp del: emits_Cons)
next
  case (AST_FOR init cond update body)
  then show ?case
    unfolding keeps_arm64_def
    by (auto simp: bindE_Inr_iff new_label_def split: option.splits prod.splits
             dest!: gen_expr_arm64_keeps_frame_ok simp del: emits_Cons)
next
  case (AST_RETURN v)
  then show ?case
    unfolding keeps_arm64_def
    by (auto simp: bindE_Inr_iff split: option.splits
             dest!: gen_expr_arm64_keeps_frame_ok simp del: emits_Cons)
next
  case (AST_BLOCK stmts)
  show ?case
    unfolding keeps_arm64_def
  proof (intro allI impI)
    fix c c'
    assume "gen_stmt_arm64 (AST_BLOCK stmts) c = Inr c'" "sizes_ok (AST_BLOCK stmts)" "frame_ok c"
    then show "frame_ok c'"
      using gen_stmts_arm64_frame_ok [OF AST_BLOCK.IH, of stmts c c'] by simp
  qed
qed (rule keeps_arm64_expr, simp)+


lemma gen_expr_x64_keeps_frame_ok: "gen_expr_x64 e c = Inr c' \<Longrightarrow> frame_ok c \<Longrightarrow> frame_ok c'"
  by (simp add: gen_expr_x64_frame_ok)

lemma keeps_x64D: "keeps_x64 st \<Longrightarrow> gen_stmt_x64 st c = Inr c' \<Longrightarrow> sizes_ok st \<Longrightarrow> frame_ok c \<Longrightarrow> frame_ok c'"
  by (auto simp: keeps_x64_def)

lemma keeps_x64_expr:
  "(\<And>c. gen_stmt_x64 st c = gen_expr_x64 st c) \<Longrightarrow> keeps_x64 st"
  by (auto simp: keeps_x64_def dest: gen_expr_x64_keeps_frame_ok)

lemma gen_stmts_x64_frame_ok:
  "(\<And>st. st \<in> set sts \<Longrightarrow> keeps_x64 st) \<Longrightarrow> gen_stmts_x64 sts c = Inr c' \<Longrightarrow>
     list_all sizes_ok sts \<Longrightarrow> frame_ok c \<Longrightarrow> frame_ok c'"
proof (induction sts arbitrary: c)
  case Nil
  then show ?case by simp
next
  case (Cons st sts)
  from Cons.prems(2) obtain c1 where s: "gen_stmt_x64 st c = Inr c1" and r: "gen_stmts_x64 sts c1 = Inr c'"
    by (auto simp: bindE_Inr_iff)
  from Cons.prems have "frame_ok c1"
    using keeps_x64D [OF _ s] by simp
  with Cons.IH [OF _ r] Cons.prems show ?case by simp
qed

lemma gen_stmt_x64_keeps: "keeps_x64 st"
proof (induction st)
  case (AST_VARDECL nm init arr sz)
  show ?case
    unfolding keeps_x64_def
  proof (intro allI impI)
    fix c c'
    assume p: "gen_stmt_x64 (AST_VARDECL nm init arr sz) c = Inr c'"
      and sz: "sizes_ok (AST_VARDECL nm init arr sz)" and ok: "frame_ok c"
    from p obtain c1 where a: "add_symbol c nm False False 0 = Inr c1"
      and r: "(case init of None \<Rightarrow> Inr (if arr then set_array c1 sz else c1)
             | Some e \<Rightarrow> bindE (gen_expr_x64 e (if arr then set_array c1 sz else c1)) (\<lambda>c3.
            Inr (emit c3 ''    movl %%eax, -%d(%%rbp)'' [I (offset (last_symbol (if arr then set_array c1 sz else c1)))]))) = Inr c'"
      by (auto simp: bindE_Inr_iff Let_def)
    from sz have "arr \<Longrightarrow> 0 \<le> sz" by simp
    from add_local_frame_ok [OF a ok this]
    have ok2: "frame_ok (if arr then set_array c1 sz else c1)" .
    with r show "frame_ok c'"
      by (auto simp: bindE_Inr_iff split: option.splits dest: gen_expr_x64_keeps_frame_ok)
  qed
next
  case (AST_IF cond then_branch else_branch)
  then show ?case
    unfolding keeps_x64_def
    by (auto simp: bindE_Inr_iff new_label_def split: option.splits prod.splits
             dest!: gen_expr_x64_keeps_frame_ok simp del: emits_Cons)
next
  case (AST_WHILE cond body)
  then show ?case
    unfolding keeps_x64_def
    by (auto simp: bindE_Inr_iff new_label_def split: option.splits prod.splits
             dest!: gen_expr_x64_keeps_frame_ok simp del: emits_Cons)
next
  case (AST_FOR init cond update body)
  then show ?case
    unfolding keeps_x64_def
    by (auto simp: bindE_Inr_iff new_label_def split: option.splits prod.splits
             dest!: gen_expr_x64_keeps_frame_ok simp del: emits_Cons)
next
  case (AST_RETURN v)
  then show ?case
    unfolding keeps_x64_def
    by (auto simp: bindE_Inr_iff split: option.splits
             dest!: gen_expr_x64_keeps_frame_ok simp del: emits_Cons)
next
  case (AST_BLOCK stmts)
  show ?case
    unfolding keeps_x64_def
  proof (intro allI impI)
    fix c c'
    assume "gen_stmt_x64 (AST_BLOCK stmts) c = Inr c'" "sizes_ok (AST_BLOCK stmts)" "frame_ok c"
    then show "frame_ok c'"
      using gen_stmts_x64_frame_ok [OF AST_BLOCK.IH, of stmts c c'] by simp
  qed
qed (rule keeps_x64_expr, simp)+

lemma label_defs_append [simp]: "label_defs (xs @ ys) = label_defs xs @ label_defs ys"
  by (induction xs) (simp_all split: option.splits)

lemma label_count_emit [simp]: "label_count (emit c f a) = label_count c"
  by (simp add: emit_def)

lemma out_emits [simp]: "out (emits c ls) = out c @ ls"
  by (induction ls arbitrary: c) simp_all

lemma label_count_emits [simp]: "label_count (emits c ls) = label_count c"
  by (induction ls arbitrary: c) simp_all

lemma ext_refl [simp]: "ext c c"
  by (simp add: ext_def)

lemma ext_trans [trans]: "ext c c1 \<Longrightarrow> ext c1 c2 \<Longrightarrow> ext c c2"
  unfolding ext_def by (elim exE conjE, rule exI [of _ "_ @ _"]) (auto, force)

lemma ext_same: "out c' = out c \<Longrightarrow> label_count c' = label_count c \<Longrightarrow> ext c c'"
  by (simp add: ext_def)

lemma ext_emits: "label_defs ls = [] \<Longrightarrow> ext c (emits c ls)"
  by (simp add: ext_def)

lemma ext_emit: "label_of (f, a) = None \<Longrightarrow> ext c (emit c f a)"
  by (simp add: ext_def)

lemma ext_binop_arm64: "ext c (binop_arm64 op c)"
  by (simp add: binop_arm64_def ext_def new_label_def label_of_def del: emits_Cons)

lemma ext_binop_x64: "ext c (binop_x64 op c)"
  by (simp add: binop_x64_def setcc_x64_def ext_def new_label_def label_of_def del: emits_Cons)


lemma ext_unop_arm64: "ext c (unop_arm64 op c)"
  by (simp add: unop_arm64_def ext_def label_of_def del: emits_Cons)

lemma ext_store_var_arm64: "ext c (store_var_arm64 sy nm c)"
  by (simp add: store_var_arm64_def ext_def label_of_def del: emits_Cons)

lemma ext_array_base_arm64: "ext c (array_base_arm64 sy nm c)"
  by (simp add: array_base_arm64_def ext_def label_of_def del: emits_Cons)

lemma label_defs_map_plain:
  "(\<And>x. label_of (f x) = None) \<Longrightarrow> label_defs (map f xs) = []"
  by (induction xs) simp_all

lemma ext_pop_args_arm64: "ext c (pop_args_arm64 n c)"
  unfolding pop_args_arm64_def
  by (rule ext_emits, rule label_defs_map_plain) (simp add: label_of_def)

lemma ext_add_string: "add_string c s = Inr (i, c') \<Longrightarrow> ext c c'"
  by (auto simp: add_string_def ext_def split: if_splits)

lemma ext_push_arm64: "ext c (emit c ''    str x0, [sp, #-16]!'' [])"
  by (simp add: ext_emit label_of_def)

lemma gen_expr_arm64_ext:
  "gen_expr_arm64 e c = Inr c' \<Longrightarrow> ext c c'"
  "gen_args_arm64 es c = Inr c' \<Longrightarrow> ext c c'"
proof (induction e c and es c arbitrary: c' and c' rule: gen_expr_arm64_gen_args_arm64.induct)
  case (1 v c)
  then show ?case
    by (auto simp: Let_def ext_def label_of_def split: if_splits)
next
  case (2 s c)
  then show ?case
    by (auto simp: bindE_Inr_iff label_of_def simp del: emits_Cons
             intro!: ext_trans [OF ext_add_string ext_emits])
next
  case (3 nm c)
  then show ?case
    by (auto simp: error_def Let_def ext_def label_of_def split: option.splits if_splits simp del: emits_Cons)
next
  case (4 nm c)
  then show ?case
    by (auto simp: error_def Let_def ext_def label_of_def split: option.splits if_splits simp del: emits_Cons)
next
  case (5 nm idx c)
  from "5.prems" obtain sy c1 where f: "find_symbol c nm = Some sy" and g: "gen_expr_arm64 idx c = Inr c1"
    and c': "c' = emits (array_base_arm64 sy nm (emit c1 ''    str x0, [sp, #-16]!'' []))
                    [(''    ldr x0, [sp], #16'', []), (''    ldr w0, [x1, x0, lsl #2]'', [])]"
    by (auto simp: error_def Let_def bindE_Inr_iff split: option.splits simp del: emits_Cons)
  have "ext c c1" using "5.IH" [OF f g] .
  also have "ext c1 (emit c1 ''    str x0, [sp, #-16]!'' [])" by (rule ext_push_arm64)
  also have "ext \<dots> (array_base_arm64 sy nm (emit c1 ''    str x0, [sp, #-16]!'' []))"
    by (rule ext_array_base_arm64)
  also have "ext \<dots> c'" unfolding c' by (rule ext_emits) (simp add: label_of_def)
  finally show ?case .
next
  case (6 op l r c)
  from "6.prems" obtain c1 c2 where l: "gen_expr_arm64 l c = Inr c1"
    and r: "gen_expr_arm64 r (emit c1 ''    str x0, [sp, #-16]!'' []) = Inr c2"
    and c': "c' = binop_arm64 op (emits c2 [(''    mov x1, x0'', []), (''    ldr x0, [sp], #16'', [])])"
    by (auto simp: bindE_Inr_iff simp del: emits_Cons)
  have "ext c c1" using "6.IH"(1) [OF l] .
  also have "ext c1 (emit c1 ''    str x0, [sp, #-16]!'' [])" by (rule ext_push_arm64)
  also have "ext \<dots> c2" using "6.IH"(2) [OF l r] .
  also have "ext c2 (emits c2 [(''    mov x1, x0'', []), (''    ldr x0, [sp], #16'', [])])"
    by (rule ext_emits) (simp add: label_of_def)
  also have "ext \<dots> c'" unfolding c' by (rule ext_binop_arm64)
  finally show ?case .
next
  case (7 op e c)
  then show ?case
    by (auto simp: bindE_Inr_iff intro: ext_trans ext_unop_arm64)
next
  case (8 left right op c)
  from "8.prems" obtain c1 where r: "gen_expr_arm64 right c = Inr c1"
    by (auto simp: bindE_Inr_iff)
  have e1: "ext c c1" using "8.IH"(1) [OF r] .
  show ?case
  proof (cases left)
    case (AST_VAR nm)
    with "8.prems" r obtain sy c3 where f: "find_symbol c1 nm = Some sy"
      and m: "(if op \<noteq> NUL then
                 bindE (gen_expr_arm64 left (emit c1 ''    str x0, [sp, #-16]!'' [])) (\<lambda>c2.
                   Inr (emits c2 [(''    mov w1, w0'', []), (''    ldr x0, [sp], #16'', []),
                          (if op = CHR ''+'' then (''    add w0, w1, w0'', [])
                           else (''    sub w0, w1, w0'', []))]))
               else Inr c1) = Inr c3"
      and c': "c' = store_var_arm64 sy nm c3"
      by (auto simp: error_def bindE_Inr_iff split: option.splits simp del: emits_Cons)
    have "ext c1 c3"
    proof (cases "op = NUL")
      case True
      with m show ?thesis by simp
    next
      case False
      with m obtain c2 where g: "gen_expr_arm64 left (emit c1 ''    str x0, [sp, #-16]!'' []) = Inr c2"
        and c3: "c3 = emits c2 [(''    mov w1, w0'', []), (''    ldr x0, [sp], #16'', []),
                          (if op = CHR ''+'' then (''    add w0, w1, w0'', [])
                           else (''    sub w0, w1, w0'', []))]"
        by (auto simp: bindE_Inr_iff simp del: emits_Cons)
      have "ext c1 (emit c1 ''    str x0, [sp, #-16]!'' [])" by (rule ext_push_arm64)
      also have "ext \<dots> c2" using "8.IH"(2) [OF r AST_VAR f False g] .
      also have "ext c2 c3" unfolding c3 by (rule ext_emits) (simp add: label_of_def)
      finally show ?thesis .
    qed
    with e1 have "ext c c3" by (rule ext_trans)
    then show ?thesis unfolding c' by (rule ext_trans) (rule ext_store_var_arm64)
  next
    case (AST_ARRAY_ACCESS nm idx)
    with "8.prems" r obtain c2 sy where g: "gen_expr_arm64 idx (emit c1 ''    str x0, [sp, #-16]!'' []) = Inr c2"
      and f: "find_symbol (emit c2 ''    str x0, [sp, #-16]!'' []) nm = Some sy"
      and c': "c' = emits (array_base_arm64 sy nm (emit c2 ''    str x0, [sp, #-16]!'' []))
                       [(''    ldr x0, [sp], #16'', []), (''    ldr x2, [sp], #16'', []),
                        (''    str w2, [x1, x0, lsl #2]'', []), (''    mov w0, w2'', [])]"
      by (auto simp: Let_def bindE_Inr_iff split: option.splits simp del: emits_Cons)
    note e1
    also have "ext c1 (emit c1 ''    str x0, [sp, #-16]!'' [])" by (rule ext_push_arm64)
    also have "ext \<dots> c2" using "8.IH"(3) [OF r AST_ARRAY_ACCESS g] .
    also have "ext c2 (emit c2 ''    str x0, [sp, #-16]!'' [])" by (rule ext_push_arm64)
    also have "ext \<dots> (array_base_arm64 sy nm (emit c2 ''    str x0, [sp, #-16]!'' []))"
      by (rule ext_array_base_arm64)
    also have "ext \<dots> c'" unfolding c' by (rule ext_emits) (simp add: label_of_def)
    finally show ?thesis .
  qed (use "8.prems" r e1 in auto)
next
  case (9 f args c)
  from "9.prems" obtain c1 where a: "gen_args_arm64 args c = Inr c1"
    and c': "c' = emit (pop_args_arm64 (length args) c1) ''    bl _%s'' [S f]"
    by (auto simp: bindE_Inr_iff)
  have "ext c c1" using "9.IH" [OF a] .
  also have "ext c1 (pop_args_arm64 (length args) c1)" by (rule ext_pop_args_arm64)
  also have "ext \<dots> c'" unfolding c' by (rule ext_emit) (simp add: label_of_def)
  finally show ?case .
next
  case (19 a as c)
  from "19.prems" obtain c1 c2 where r: "gen_args_arm64 as c = Inr c1" and g: "gen_expr_arm64 a c1 = Inr c2"
    and c': "c' = emit c2 ''    str x0, [sp, #-16]!'' []"
    by (auto simp: bindE_Inr_iff)
  have "ext c c1" using "19.IH"(1) [OF r] .
  also have "ext c1 c2" using "19.IH"(2) [OF r g] .
  also have "ext c2 c'" unfolding c' by (rule ext_push_arm64)
  finally show ?case .
qed (auto simp: error_def)

lemma ext_stmt_arm64D: "ext_stmt_arm64 st \<Longrightarrow> gen_stmt_arm64 st c = Inr c' \<Longrightarrow> ext c c'"
  by (simp add: ext_stmt_arm64_def)

lemma ext_stmt_arm64_expr: "(\<And>c. gen_stmt_arm64 st c = gen_expr_arm64 st c) \<Longrightarrow> ext_stmt_arm64 st"
  by (simp add: ext_stmt_arm64_def gen_expr_arm64_ext)

lemma gen_stmts_arm64_ext:
  "(\<And>st. st \<in> set sts \<Longrightarrow> ext_stmt_arm64 st) \<Longrightarrow> gen_stmts_arm64 sts c = Inr c' \<Longrightarrow> ext c c'"
proof (induction sts arbitrary: c)
  case Nil
  then show ?case by simp
next
  case (Cons st sts)
  from Cons.prems(2) obtain c1 where s: "gen_stmt_arm64 st c = Inr c1" and r: "gen_stmts_arm64 sts c1 = Inr c'"
    by (auto simp: bindE_Inr_iff)
  have "ext_stmt_arm64 st" by (rule Cons.prems(1)) simp
  then have "ext c c1" using s by (rule ext_stmt_arm64D)
  also have "ext c1 c'" by (rule Cons.IH [OF _ r], rule Cons.prems(1)) simp
  finally show ?case .
qed

lemma distinct_interleave:
  fixes a b c d :: int
  assumes "distinct (p @ m @ q)" and "set (p @ m @ q) \<subseteq> {a..<b}"
    and "distinct l1" and "set l1 \<subseteq> {b..<c}"
    and "distinct l2" and "set l2 \<subseteq> {c..<d}" and "b \<le> c"
  shows "distinct (p @ l1 @ m @ l2 @ q)"
proof -
  have i1: "set l1 \<inter> set l2 = {}"
    using assms(4,6) by fastforce
  have i2: "set l1 \<inter> (set p \<union> set m \<union> set q) = {}"
    using assms(2,4) by fastforce
  have i3: "set l2 \<inter> (set p \<union> set m \<union> set q) = {}"
    using assms(2,6,7) by fastforce
  from i2 have j2: "set p \<inter> set l1 = {}" "set l1 \<inter> set m = {}" "set l1 \<inter> set q = {}"
    by blast+
  from i3 have j3: "set p \<inter> set l2 = {}" "set m \<inter> set l2 = {}" "set l2 \<inter> set q = {}"
    by blast+
  from assms(1) have k: "distinct p" "distinct m" "distinct q"
    "set p \<inter> set m = {}" "set p \<inter> set q = {}" "set m \<inter> set q = {}"
    by auto
  show ?thesis
    using k j2 j3 i1 assms(3,5) by (simp add: Int_Un_distrib Int_Un_distrib2)
qed

lemma ext_wrap2:
  assumes "out ca = out c @ pre" and "label_count ca = label_count c + k" and "0 \<le> k"
    and "ext ca cb"
    and "out cc = out cb @ mid" and "label_count cc = label_count cb"
    and "ext cc cd"
    and "out c' = out cd @ post" and "label_count c' = label_count cd"
    and "distinct (label_defs pre @ label_defs mid @ label_defs post)"
    and "set (label_defs pre @ label_defs mid @ label_defs post) \<subseteq> {label_count c ..< label_count c + k}"
  shows "ext c c'"
proof -
  from assms(4) obtain l1 where l1: "out cb = out ca @ l1" "label_count ca \<le> label_count cb"
    "distinct (label_defs l1)" "set (label_defs l1) \<subseteq> {label_count ca ..< label_count cb}"
    unfolding ext_def by blast
  from assms(7) obtain l2 where l2: "out cd = out cc @ l2" "label_count cc \<le> label_count cd"
    "distinct (label_defs l2)" "set (label_defs l2) \<subseteq> {label_count cc ..< label_count cd}"
    unfolding ext_def by blast
  have o: "out c' = out c @ (pre @ l1 @ mid @ l2 @ post)"
    using assms(1,5,8) l1(1) l2(1) by simp
  have r1: "set (label_defs l1) \<subseteq> {label_count c + k ..< label_count cb}"
    using l1(4) assms(2) by simp
  have r2: "set (label_defs l2) \<subseteq> {label_count cb ..< label_count cd}"
    using l2(4) assms(6) by simp
  have le: "label_count c + k \<le> label_count cb" "label_count cb \<le> label_count cd"
    using l1(2) l2(2) assms(2,6) by simp_all
  have d: "distinct (label_defs (pre @ l1 @ mid @ l2 @ post))"
    using distinct_interleave [OF assms(10,11) l1(3) r1 l2(3) r2 le(1)] by simp
  have "set (label_defs pre @ label_defs mid @ label_defs post) \<subseteq> {label_count c ..< label_count cd}"
    using assms(11) le by fastforce
  moreover have "set (label_defs l1) \<subseteq> {label_count c ..< label_count cd}"
    using r1 le assms(3) by fastforce
  moreover have "set (label_defs l2) \<subseteq> {label_count c ..< label_count cd}"
    using r2 le assms(3) by fastforce
  ultimately have s: "set (label_defs (pre @ l1 @ mid @ l2 @ post)) \<subseteq> {label_count c ..< label_count c'}"
    using assms(9) by simp
  have "label_count c \<le> label_count c'"
    using assms(3,9) le by simp
  with o d s show ?thesis
    unfolding ext_def by blast
qed

lemma gen_stmt_arm64_while_eq:
  "gen_stmt_arm64 (AST_WHILE cond body) c =
     bindE (gen_expr_arm64 cond (emit (c\<lparr>label_count := label_count c + 1 + 1\<rparr>) ''L%d:'' [I (label_count c)])) (\<lambda>c3.
     bindE (gen_stmt_arm64 body (emit c3 ''    cbz w0, L%d'' [I (label_count c + 1)])) (\<lambda>c4.
       Inr (emits c4 [(''    b L%d'', [I (label_count c)]), (''L%d:'', [I (label_count c + 1)])])))"
  by (simp add: new_label_def del: emits_Cons)

lemma ext_stmt_arm64_while:
  assumes "ext_stmt_arm64 body"
  shows "ext_stmt_arm64 (AST_WHILE cond body)"
  unfolding ext_stmt_arm64_def
proof (intro allI impI)
  fix c c' :: Compiler
  let ?c1 = "emit (c\<lparr>label_count := label_count c + 1 + 1\<rparr>) ''L%d:'' [I (label_count c)]"
  let ?post = "[(''    b L%d'', [I (label_count c)]), (''L%d:'', [I (label_count c + 1)])]"
  assume "gen_stmt_arm64 (AST_WHILE cond body) c = Inr c'"
  then obtain c3 c4 where g: "gen_expr_arm64 cond ?c1 = Inr c3"
    and b: "gen_stmt_arm64 body (emit c3 ''    cbz w0, L%d'' [I (label_count c + 1)]) = Inr c4"
    and c': "Inr (emits c4 ?post) = (Inr c' :: failure + Compiler)"
    unfolding gen_stmt_arm64_while_eq bindE_Inr_iff by blast
  have "ext ?c1 c3" using g by (rule gen_expr_arm64_ext)
  also have "ext c3 (emit c3 ''    cbz w0, L%d'' [I (label_count c + 1)])"
    by (rule ext_emit) (simp add: label_of_def)
  also have "ext \<dots> c4" using assms b by (rule ext_stmt_arm64D)
  finally have inner: "ext ?c1 c4" .
  from c' have c'': "c' = emits c4 ?post" by simp
  show "ext c c'"
    by (rule ext_wrap2 [where ca = ?c1 and cb = c4 and cc = c4 and cd = c4 and k = 2
            and pre = "[(''L%d:'', [I (label_count c)])]" and mid = "[]" and post = ?post,
            OF _ _ _ inner _ _ ext_refl])
       (simp_all add: c'' label_of_def del: emits_Cons)
qed


lemma gen_stmt_arm64_if_eq:
  "gen_stmt_arm64 (AST_IF cond t e) c =
     bindE (gen_expr_arm64 cond (c\<lparr>label_count := label_count c + 1 + 1\<rparr>)) (\<lambda>c3.
     bindE (gen_stmt_arm64 t (emit c3 ''    cbz w0, L%d'' [I (label_count c)])) (\<lambda>c4.
     bindE (case e of
              None \<Rightarrow> Inr (emits c4 [(''    b L%d'', [I (label_count c + 1)]), (''L%d:'', [I (label_count c)])])
            | Some el \<Rightarrow>
                gen_stmt_arm64 el (emits c4 [(''    b L%d'', [I (label_count c + 1)]), (''L%d:'', [I (label_count c)])]))
       (\<lambda>c5. Inr (emit c5 ''L%d:'' [I (label_count c + 1)]))))"
  by (cases e) (simp_all add: new_label_def del: emits_Cons)

lemma ext_stmt_arm64_if:
  assumes "ext_stmt_arm64 t" and "\<And>el. e = Some el \<Longrightarrow> ext_stmt_arm64 el"
  shows "ext_stmt_arm64 (AST_IF cond t e)"
  unfolding ext_stmt_arm64_def
proof (intro allI impI)
  fix c c' :: Compiler
  let ?c2 = "c\<lparr>label_count := label_count c + 1 + 1\<rparr>"
  let ?mid = "[(''    b L%d'', [I (label_count c + 1)]), (''L%d:'', [I (label_count c)])]"
  assume "gen_stmt_arm64 (AST_IF cond t e) c = Inr c'"
  then obtain c3 c4 c5 where g: "gen_expr_arm64 cond ?c2 = Inr c3"
    and t: "gen_stmt_arm64 t (emit c3 ''    cbz w0, L%d'' [I (label_count c)]) = Inr c4"
    and e: "(case e of None \<Rightarrow> Inr (emits c4 ?mid) | Some el \<Rightarrow> gen_stmt_arm64 el (emits c4 ?mid)) = Inr c5"
    and c': "Inr (emit c5 ''L%d:'' [I (label_count c + 1)]) = (Inr c' :: failure + Compiler)"
    unfolding gen_stmt_arm64_if_eq bindE_Inr_iff by blast
  have "ext ?c2 c3" using g by (rule gen_expr_arm64_ext)
  also have "ext c3 (emit c3 ''    cbz w0, L%d'' [I (label_count c)])"
    by (rule ext_emit) (simp add: label_of_def)
  also have "ext \<dots> c4" using assms(1) t by (rule ext_stmt_arm64D)
  finally have inner1: "ext ?c2 c4" .
  have inner2: "ext (emits c4 ?mid) c5"
  proof (cases e)
    case None
    with e show ?thesis by simp
  next
    case (Some el)
    with e have "gen_stmt_arm64 el (emits c4 ?mid) = Inr c5" by simp
    with assms(2) [OF Some] show ?thesis by (rule ext_stmt_arm64D)
  qed
  from c' have c'': "c' = emit c5 ''L%d:'' [I (label_count c + 1)]" by simp
  show "ext c c'"
    by (rule ext_wrap2 [where ca = ?c2 and cb = c4 and cc = "emits c4 ?mid" and cd = c5 and k = 2
            and pre = "[]" and mid = ?mid and post = "[(''L%d:'', [I (label_count c + 1)])]",
            OF _ _ _ inner1 _ _ inner2])
       (simp_all add: c'' label_of_def del: emits_Cons)
qed

lemma gen_stmt_arm64_for_eq:
  "gen_stmt_arm64 (AST_FOR init cond update body) c =
     bindE (case init of None \<Rightarrow> Inr (c\<lparr>label_count := label_count c + 1 + 1\<rparr>)
            | Some i \<Rightarrow> gen_stmt_arm64 i (c\<lparr>label_count := label_count c + 1 + 1\<rparr>)) (\<lambda>c3.
     bindE (case cond of
              None \<Rightarrow> Inr (emit c3 ''L%d:'' [I (label_count c)])
            | Some e \<Rightarrow>
                bindE (gen_expr_arm64 e (emit c3 ''L%d:'' [I (label_count c)])) (\<lambda>c4.
                  Inr (emit c4 ''    cbz w0, L%d'' [I (label_count c + 1)]))) (\<lambda>c5.
     bindE (gen_stmt_arm64 body c5) (\<lambda>c6.
     bindE (case update of None \<Rightarrow> Inr c6 | Some u \<Rightarrow> gen_expr_arm64 u c6) (\<lambda>c7.
       Inr (emits c7 [(''    b L%d'', [I (label_count c)]), (''L%d:'', [I (label_count c + 1)])])))))"
  by (cases init; cases cond; cases update) (simp_all add: new_label_def del: emits_Cons)

lemma ext_stmt_arm64_for:
  assumes "ext_stmt_arm64 body" and "\<And>i. init = Some i \<Longrightarrow> ext_stmt_arm64 i"
  shows "ext_stmt_arm64 (AST_FOR init cond update body)"
  unfolding ext_stmt_arm64_def
proof (intro allI impI)
  fix c c' :: Compiler
  let ?c2 = "c\<lparr>label_count := label_count c + 1 + 1\<rparr>"
  let ?post = "[(''    b L%d'', [I (label_count c)]), (''L%d:'', [I (label_count c + 1)])]"
  assume "gen_stmt_arm64 (AST_FOR init cond update body) c = Inr c'"
  then obtain c3 c5 c6 c7 where
    i: "(case init of None \<Rightarrow> Inr ?c2 | Some i \<Rightarrow> gen_stmt_arm64 i ?c2) = Inr c3"
    and co: "(case cond of
              None \<Rightarrow> Inr (emit c3 ''L%d:'' [I (label_count c)])
            | Some e \<Rightarrow>
                bindE (gen_expr_arm64 e (emit c3 ''L%d:'' [I (label_count c)])) (\<lambda>c4.
                  Inr (emit c4 ''    cbz w0, L%d'' [I (label_count c + 1)]))) = Inr c5"
    and b: "gen_stmt_arm64 body c5 = Inr c6"
    and u: "(case update of None \<Rightarrow> Inr c6 | Some u \<Rightarrow> gen_expr_arm64 u c6) = Inr c7"
    and c': "Inr (emits c7 ?post) = (Inr c' :: failure + Compiler)"
    unfolding gen_stmt_arm64_for_eq bindE_Inr_iff by blast
  have inner1: "ext ?c2 c3"
  proof (cases init)
    case None
    with i show ?thesis by simp
  next
    case (Some st)
    with i have "gen_stmt_arm64 st ?c2 = Inr c3" by simp
    with assms(2) [OF Some] show ?thesis by (rule ext_stmt_arm64D)
  qed
  have "ext (emit c3 ''L%d:'' [I (label_count c)]) c5"
  proof (cases cond)
    case None
    with co show ?thesis by simp
  next
    case (Some e)
    with co obtain c4 where g: "gen_expr_arm64 e (emit c3 ''L%d:'' [I (label_count c)]) = Inr c4"
      and c5: "c5 = emit c4 ''    cbz w0, L%d'' [I (label_count c + 1)]"
      by (auto simp: bindE_Inr_iff)
    have "ext (emit c3 ''L%d:'' [I (label_count c)]) c4" using g by (rule gen_expr_arm64_ext)
    also have "ext c4 c5" unfolding c5 by (rule ext_emit) (simp add: label_of_def)
    finally show ?thesis .
  qed
  also have "ext c5 c6" using assms(1) b by (rule ext_stmt_arm64D)
  also have "ext c6 c7"
  proof (cases update)
    case None
    with u show ?thesis by simp
  next
    case (Some e)
    with u show ?thesis by (simp add: gen_expr_arm64_ext)
  qed
  finally have inner2: "ext (emit c3 ''L%d:'' [I (label_count c)]) c7" .
  from c' have c'': "c' = emits c7 ?post" by simp
  show "ext c c'"
    by (rule ext_wrap2 [where ca = ?c2 and cb = c3 and cc = "emit c3 ''L%d:'' [I (label_count c)]"
            and cd = c7 and k = 2
            and pre = "[]" and mid = "[(''L%d:'', [I (label_count c)])]" and post = ?post,
            OF _ _ _ inner1 _ _ inner2])
       (simp_all add: c'' label_of_def del: emits_Cons)
qed

lemma ext_add_symbol: "add_symbol c nm g p i = Inr c' \<Longrightarrow> ext c c'"
  by (rule ext_same) (auto simp: add_symbol_def Let_def split: if_splits)

lemma ext_set_array: "ext c (set_array c sz)"
  by (rule ext_same) (simp_all add: set_array_def Let_def)

lemma ext_stmt_arm64_vardecl: "ext_stmt_arm64 (AST_VARDECL nm init arr sz)"
  unfolding ext_stmt_arm64_def
proof (intro allI impI)
  fix c c' :: Compiler
  assume "gen_stmt_arm64 (AST_VARDECL nm init arr sz) c = Inr c'"
  then obtain c1 where a: "add_symbol c nm False False 0 = Inr c1"
    and r: "(case init of None \<Rightarrow> Inr (if arr then set_array c1 sz else c1)
             | Some e \<Rightarrow> bindE (gen_expr_arm64 e (if arr then set_array c1 sz else c1)) (\<lambda>c3.
            Inr (emit c3 ''    str w0, [x29, #-%d]'' [I (offset (last_symbol (if arr then set_array c1 sz else c1)))]))) = Inr c'"
    by (auto simp: bindE_Inr_iff Let_def)
  have "ext c c1" using a by (rule ext_add_symbol)
  also have "ext c1 (if arr then set_array c1 sz else c1)"
    by (simp add: ext_set_array)
  also have "ext \<dots> c'"
  proof (cases init)
    case None
    with r show ?thesis by auto
  next
    case (Some e)
    with r obtain c3 where g: "gen_expr_arm64 e (if arr then set_array c1 sz else c1) = Inr c3"
      and c': "c' = emit c3 ''    str w0, [x29, #-%d]'' [I (offset (last_symbol (if arr then set_array c1 sz else c1)))]"
      by (auto simp: bindE_Inr_iff)
    have "ext (if arr then set_array c1 sz else c1) c3" using g by (rule gen_expr_arm64_ext)
    also have "ext c3 c'" unfolding c' by (rule ext_emit) (simp add: label_of_def)
    finally show ?thesis .
  qed
  finally show "ext c c'" .
qed

lemma ext_stmt_arm64_return: "ext_stmt_arm64 (AST_RETURN v)"
  unfolding ext_stmt_arm64_def
proof (intro allI impI)
  fix c c' :: Compiler
  assume "gen_stmt_arm64 (AST_RETURN v) c = Inr c'"
  then obtain c1 where g: "(case v of None \<Rightarrow> Inr c | Some e \<Rightarrow> gen_expr_arm64 e c) = Inr c1"
    and c': "c' = emits c1 epilogue_arm64"
    by (auto simp: bindE_Inr_iff simp del: emits_Cons)
  have "ext c c1" using g by (cases v) (simp_all add: gen_expr_arm64_ext)
  also have "ext c1 c'" unfolding c' by (rule ext_emits) (simp add: epilogue_arm64_def label_of_def)
  finally show "ext c c'" .
qed

lemma gen_stmt_arm64_ext_all: "ext_stmt_arm64 st"
proof (induction st)
  case (AST_IF cond t e)
  show ?case
    by (rule ext_stmt_arm64_if) (use AST_IF in auto)
next
  case (AST_WHILE cond body)
  then show ?case by (simp add: ext_stmt_arm64_while)
next
  case (AST_FOR init cond update body)
  show ?case
    by (rule ext_stmt_arm64_for) (use AST_FOR in auto)
next
  case (AST_BLOCK stmts)
  show ?case
    unfolding ext_stmt_arm64_def
  proof (intro allI impI)
    fix c c' :: Compiler
    assume "gen_stmt_arm64 (AST_BLOCK stmts) c = Inr c'"
    then show "ext c c'"
      using gen_stmts_arm64_ext [OF AST_BLOCK.IH, of stmts c c'] by simp
  qed
qed (simp_all add: ext_stmt_arm64_vardecl ext_stmt_arm64_return ext_stmt_arm64_expr)

lemma ext_unop_x64: "ext c (unop_x64 op c)"
  by (simp add: unop_x64_def ext_def label_of_def del: emits_Cons)

lemma ext_store_var_x64: "ext c (store_var_x64 sy nm c)"
  by (simp add: store_var_x64_def ext_def label_of_def del: emits_Cons)

lemma ext_array_base_x64: "ext c (array_base_x64 sy nm c)"
  by (simp add: array_base_x64_def ext_def label_of_def del: emits_Cons)

lemma ext_pop_args_x64: "ext c (pop_args_x64 n c)"
  unfolding pop_args_x64_def
  by (rule ext_emits, rule label_defs_map_plain) (simp add: label_of_def)

lemma ext_push_x64: "ext c (emit c ''    pushq %%rax'' [])"
  by (simp add: ext_emit label_of_def)

lemma gen_expr_x64_ext:
  "gen_expr_x64 e c = Inr c' \<Longrightarrow> ext c c'"
  "gen_args_x64 es c = Inr c' \<Longrightarrow> ext c c'"
proof (induction e c and es c arbitrary: c' and c' rule: gen_expr_x64_gen_args_x64.induct)
  case (1 v c)
  then show ?case
    by (auto simp: Let_def ext_def label_of_def split: if_splits)
next
  case (2 s c)
  then show ?case
    by (auto simp: bindE_Inr_iff label_of_def simp del: emits_Cons
             intro!: ext_trans [OF ext_add_string ext_emit])
next
  case (3 nm c)
  then show ?case
    by (auto simp: error_def Let_def ext_def label_of_def split: option.splits if_splits simp del: emits_Cons)
next
  case (4 nm c)
  then show ?case
    by (auto simp: error_def Let_def ext_def label_of_def split: option.splits if_splits simp del: emits_Cons)
next
  case (5 nm idx c)
  from "5.prems" obtain sy c1 where f: "find_symbol c nm = Some sy" and g: "gen_expr_x64 idx c = Inr c1"
    and c': "c' = emits (array_base_x64 sy nm (emit c1 ''    pushq %%rax'' []))
                    [(''    popq %%rax'', []), (''    movl (%%rcx,%%rax,4), %%eax'', [])]"
    by (auto simp: error_def Let_def bindE_Inr_iff split: option.splits simp del: emits_Cons)
  have "ext c c1" using "5.IH" [OF f g] .
  also have "ext c1 (emit c1 ''    pushq %%rax'' [])" by (rule ext_push_x64)
  also have "ext \<dots> (array_base_x64 sy nm (emit c1 ''    pushq %%rax'' []))"
    by (rule ext_array_base_x64)
  also have "ext \<dots> c'" unfolding c' by (rule ext_emits) (simp add: label_of_def)
  finally show ?case .
next
  case (6 op l r c)
  from "6.prems" obtain c1 c2 where l: "gen_expr_x64 l c = Inr c1"
    and r: "gen_expr_x64 r (emit c1 ''    pushq %%rax'' []) = Inr c2"
    and c': "c' = binop_x64 op (emits c2 [(''    movl %%eax, %%ecx'', []), (''    popq %%rax'', [])])"
    by (auto simp: bindE_Inr_iff simp del: emits_Cons)
  have "ext c c1" using "6.IH"(1) [OF l] .
  also have "ext c1 (emit c1 ''    pushq %%rax'' [])" by (rule ext_push_x64)
  also have "ext \<dots> c2" using "6.IH"(2) [OF l r] .
  also have "ext c2 (emits c2 [(''    movl %%eax, %%ecx'', []), (''    popq %%rax'', [])])"
    by (rule ext_emits) (simp add: label_of_def)
  also have "ext \<dots> c'" unfolding c' by (rule ext_binop_x64)
  finally show ?case .
next
  case (7 op e c)
  then show ?case
    by (auto simp: bindE_Inr_iff intro: ext_trans ext_unop_x64)
next
  case (8 left right op c)
  from "8.prems" obtain c1 where r: "gen_expr_x64 right c = Inr c1"
    by (auto simp: bindE_Inr_iff)
  have e1: "ext c c1" using "8.IH"(1) [OF r] .
  show ?case
  proof (cases left)
    case (AST_VAR nm)
    with "8.prems" r obtain sy c3 where f: "find_symbol c1 nm = Some sy"
      and m: "(if op \<noteq> NUL then
                 bindE (gen_expr_x64 left (emit c1 ''    pushq %%rax'' [])) (\<lambda>c2.
                   Inr (emits c2 [(''    movl %%eax, %%ecx'', []), (''    popq %%rax'', []),
                          (if op = CHR ''+'' then (''    addl %%ecx, %%eax'', [])
                           else (''    subl %%eax, %%ecx'' @ [NL] @ ''    movl %%ecx, %%eax'', []))]))
               else Inr c1) = Inr c3"
      and c': "c' = store_var_x64 sy nm c3"
      by (auto simp: error_def bindE_Inr_iff split: option.splits simp del: emits_Cons)
    have "ext c1 c3"
    proof (cases "op = NUL")
      case True
      with m show ?thesis by simp
    next
      case False
      with m obtain c2 where g: "gen_expr_x64 left (emit c1 ''    pushq %%rax'' []) = Inr c2"
        and c3: "c3 = emits c2 [(''    movl %%eax, %%ecx'', []), (''    popq %%rax'', []),
                          (if op = CHR ''+'' then (''    addl %%ecx, %%eax'', [])
                           else (''    subl %%eax, %%ecx'' @ [NL] @ ''    movl %%ecx, %%eax'', []))]"
        by (auto simp: bindE_Inr_iff simp del: emits_Cons)
      have "ext c1 (emit c1 ''    pushq %%rax'' [])" by (rule ext_push_x64)
      also have "ext \<dots> c2" using "8.IH"(2) [OF r AST_VAR f False g] .
      also have "ext c2 c3" unfolding c3 by (rule ext_emits) (simp add: label_of_def)
      finally show ?thesis .
    qed
    with e1 have "ext c c3" by (rule ext_trans)
    then show ?thesis unfolding c' by (rule ext_trans) (rule ext_store_var_x64)
  next
    case (AST_ARRAY_ACCESS nm idx)
    with "8.prems" r obtain c2 sy where g: "gen_expr_x64 idx (emit c1 ''    pushq %%rax'' []) = Inr c2"
      and f: "find_symbol (emit c2 ''    pushq %%rax'' []) nm = Some sy"
      and c': "c' = emits (array_base_x64 sy nm (emit c2 ''    pushq %%rax'' []))
                       [(''    popq %%rax'', []), (''    popq %%rdx'', []),
                        (''    movl %%edx, (%%rcx,%%rax,4)'', []), (''    movl %%edx, %%eax'', [])]"
      by (auto simp: Let_def bindE_Inr_iff split: option.splits simp del: emits_Cons)
    note e1
    also have "ext c1 (emit c1 ''    pushq %%rax'' [])" by (rule ext_push_x64)
    also have "ext \<dots> c2" using "8.IH"(3) [OF r AST_ARRAY_ACCESS g] .
    also have "ext c2 (emit c2 ''    pushq %%rax'' [])" by (rule ext_push_x64)
    also have "ext \<dots> (array_base_x64 sy nm (emit c2 ''    pushq %%rax'' []))"
      by (rule ext_array_base_x64)
    also have "ext \<dots> c'" unfolding c' by (rule ext_emits) (simp add: label_of_def)
    finally show ?thesis .
  qed (use "8.prems" r e1 in auto)
next
  case (9 f args c)
  from "9.prems" obtain c1 where a: "gen_args_x64 args c = Inr c1"
    and c': "c' = call_x64 f (pop_args_x64 (length args) c1)"
    by (auto simp: bindE_Inr_iff)
  have "ext c c1" using "9.IH" [OF a] .
  also have "ext c1 (pop_args_x64 (length args) c1)" by (rule ext_pop_args_x64)
  also have "ext \<dots> c'" unfolding c' call_x64_def by (rule ext_emits) (simp add: label_of_def)
  finally show ?case .
next
  case (19 a as c)
  from "19.prems" obtain c1 c2 where r: "gen_args_x64 as c = Inr c1" and g: "gen_expr_x64 a c1 = Inr c2"
    and c': "c' = emit c2 ''    pushq %%rax'' []"
    by (auto simp: bindE_Inr_iff)
  have "ext c c1" using "19.IH"(1) [OF r] .
  also have "ext c1 c2" using "19.IH"(2) [OF r g] .
  also have "ext c2 c'" unfolding c' by (rule ext_push_x64)
  finally show ?case .
qed (auto simp: error_def)


lemma ext_stmt_x64D: "ext_stmt_x64 st \<Longrightarrow> gen_stmt_x64 st c = Inr c' \<Longrightarrow> ext c c'"
  by (simp add: ext_stmt_x64_def)

lemma ext_stmt_x64_expr: "(\<And>c. gen_stmt_x64 st c = gen_expr_x64 st c) \<Longrightarrow> ext_stmt_x64 st"
  by (simp add: ext_stmt_x64_def gen_expr_x64_ext)

lemma gen_stmts_x64_ext:
  "(\<And>st. st \<in> set sts \<Longrightarrow> ext_stmt_x64 st) \<Longrightarrow> gen_stmts_x64 sts c = Inr c' \<Longrightarrow> ext c c'"
proof (induction sts arbitrary: c)
  case Nil
  then show ?case by simp
next
  case (Cons st sts)
  from Cons.prems(2) obtain c1 where s: "gen_stmt_x64 st c = Inr c1" and r: "gen_stmts_x64 sts c1 = Inr c'"
    by (auto simp: bindE_Inr_iff)
  have "ext_stmt_x64 st" by (rule Cons.prems(1)) simp
  then have "ext c c1" using s by (rule ext_stmt_x64D)
  also have "ext c1 c'" by (rule Cons.IH [OF _ r], rule Cons.prems(1)) simp
  finally show ?case .
qed

lemma gen_stmt_x64_while_eq:
  "gen_stmt_x64 (AST_WHILE cond body) c =
     bindE (gen_expr_x64 cond (emit (c\<lparr>label_count := label_count c + 1 + 1\<rparr>) ''L%d:'' [I (label_count c)])) (\<lambda>c3.
     bindE (gen_stmt_x64 body (emits c3 [(''    testl %%eax, %%eax'', []), (''    je L%d'', [I (label_count c + 1)])])) (\<lambda>c4.
       Inr (emits c4 [(''    jmp L%d'', [I (label_count c)]), (''L%d:'', [I (label_count c + 1)])])))"
  by (simp add: new_label_def del: emits_Cons)

lemma ext_stmt_x64_while:
  assumes "ext_stmt_x64 body"
  shows "ext_stmt_x64 (AST_WHILE cond body)"
  unfolding ext_stmt_x64_def
proof (intro allI impI)
  fix c c' :: Compiler
  let ?c1 = "emit (c\<lparr>label_count := label_count c + 1 + 1\<rparr>) ''L%d:'' [I (label_count c)]"
  let ?post = "[(''    jmp L%d'', [I (label_count c)]), (''L%d:'', [I (label_count c + 1)])]"
  assume "gen_stmt_x64 (AST_WHILE cond body) c = Inr c'"
  then obtain c3 c4 where g: "gen_expr_x64 cond ?c1 = Inr c3"
    and b: "gen_stmt_x64 body (emits c3 [(''    testl %%eax, %%eax'', []), (''    je L%d'', [I (label_count c + 1)])]) = Inr c4"
    and c': "Inr (emits c4 ?post) = (Inr c' :: failure + Compiler)"
    unfolding gen_stmt_x64_while_eq bindE_Inr_iff by blast
  have "ext ?c1 c3" using g by (rule gen_expr_x64_ext)
  also have "ext c3 (emits c3 [(''    testl %%eax, %%eax'', []), (''    je L%d'', [I (label_count c + 1)])])"
    by (rule ext_emits) (simp add: label_of_def)
  also have "ext \<dots> c4" using assms b by (rule ext_stmt_x64D)
  finally have inner: "ext ?c1 c4" .
  from c' have c'': "c' = emits c4 ?post" by simp
  show "ext c c'"
    by (rule ext_wrap2 [where ca = ?c1 and cb = c4 and cc = c4 and cd = c4 and k = 2
            and pre = "[(''L%d:'', [I (label_count c)])]" and mid = "[]" and post = ?post,
            OF _ _ _ inner _ _ ext_refl])
       (simp_all add: c'' label_of_def del: emits_Cons)
qed


lemma gen_stmt_x64_if_eq:
  "gen_stmt_x64 (AST_IF cond t e) c =
     bindE (gen_expr_x64 cond (c\<lparr>label_count := label_count c + 1 + 1\<rparr>)) (\<lambda>c3.
     bindE (gen_stmt_x64 t (emits c3 [(''    testl %%eax, %%eax'', []), (''    je L%d'', [I (label_count c)])])) (\<lambda>c4.
     bindE (case e of
              None \<Rightarrow> Inr (emits c4 [(''    jmp L%d'', [I (label_count c + 1)]), (''L%d:'', [I (label_count c)])])
            | Some el \<Rightarrow>
                gen_stmt_x64 el (emits c4 [(''    jmp L%d'', [I (label_count c + 1)]), (''L%d:'', [I (label_count c)])]))
       (\<lambda>c5. Inr (emit c5 ''L%d:'' [I (label_count c + 1)]))))"
  by (cases e) (simp_all add: new_label_def del: emits_Cons)

lemma ext_stmt_x64_if:
  assumes "ext_stmt_x64 t" and "\<And>el. e = Some el \<Longrightarrow> ext_stmt_x64 el"
  shows "ext_stmt_x64 (AST_IF cond t e)"
  unfolding ext_stmt_x64_def
proof (intro allI impI)
  fix c c' :: Compiler
  let ?c2 = "c\<lparr>label_count := label_count c + 1 + 1\<rparr>"
  let ?mid = "[(''    jmp L%d'', [I (label_count c + 1)]), (''L%d:'', [I (label_count c)])]"
  assume "gen_stmt_x64 (AST_IF cond t e) c = Inr c'"
  then obtain c3 c4 c5 where g: "gen_expr_x64 cond ?c2 = Inr c3"
    and t: "gen_stmt_x64 t (emits c3 [(''    testl %%eax, %%eax'', []), (''    je L%d'', [I (label_count c)])]) = Inr c4"
    and e: "(case e of None \<Rightarrow> Inr (emits c4 ?mid) | Some el \<Rightarrow> gen_stmt_x64 el (emits c4 ?mid)) = Inr c5"
    and c': "Inr (emit c5 ''L%d:'' [I (label_count c + 1)]) = (Inr c' :: failure + Compiler)"
    unfolding gen_stmt_x64_if_eq bindE_Inr_iff by blast
  have "ext ?c2 c3" using g by (rule gen_expr_x64_ext)
  also have "ext c3 (emits c3 [(''    testl %%eax, %%eax'', []), (''    je L%d'', [I (label_count c)])])"
    by (rule ext_emits) (simp add: label_of_def)
  also have "ext \<dots> c4" using assms(1) t by (rule ext_stmt_x64D)
  finally have inner1: "ext ?c2 c4" .
  have inner2: "ext (emits c4 ?mid) c5"
  proof (cases e)
    case None
    with e show ?thesis by simp
  next
    case (Some el)
    with e have "gen_stmt_x64 el (emits c4 ?mid) = Inr c5" by simp
    with assms(2) [OF Some] show ?thesis by (rule ext_stmt_x64D)
  qed
  from c' have c'': "c' = emit c5 ''L%d:'' [I (label_count c + 1)]" by simp
  show "ext c c'"
    by (rule ext_wrap2 [where ca = ?c2 and cb = c4 and cc = "emits c4 ?mid" and cd = c5 and k = 2
            and pre = "[]" and mid = ?mid and post = "[(''L%d:'', [I (label_count c + 1)])]",
            OF _ _ _ inner1 _ _ inner2])
       (simp_all add: c'' label_of_def del: emits_Cons)
qed

lemma gen_stmt_x64_for_eq:
  "gen_stmt_x64 (AST_FOR init cond update body) c =
     bindE (case init of None \<Rightarrow> Inr (c\<lparr>label_count := label_count c + 1 + 1\<rparr>)
            | Some i \<Rightarrow> gen_stmt_x64 i (c\<lparr>label_count := label_count c + 1 + 1\<rparr>)) (\<lambda>c3.
     bindE (case cond of
              None \<Rightarrow> Inr (emit c3 ''L%d:'' [I (label_count c)])
            | Some e \<Rightarrow>
                bindE (gen_expr_x64 e (emit c3 ''L%d:'' [I (label_count c)])) (\<lambda>c4.
                  Inr (emits c4 [(''    testl %%eax, %%eax'', []), (''    je L%d'', [I (label_count c + 1)])]))) (\<lambda>c5.
     bindE (gen_stmt_x64 body c5) (\<lambda>c6.
     bindE (case update of None \<Rightarrow> Inr c6 | Some u \<Rightarrow> gen_expr_x64 u c6) (\<lambda>c7.
       Inr (emits c7 [(''    jmp L%d'', [I (label_count c)]), (''L%d:'', [I (label_count c + 1)])])))))"
  by (cases init; cases cond; cases update) (simp_all add: new_label_def del: emits_Cons)

lemma ext_stmt_x64_for:
  assumes "ext_stmt_x64 body" and "\<And>i. init = Some i \<Longrightarrow> ext_stmt_x64 i"
  shows "ext_stmt_x64 (AST_FOR init cond update body)"
  unfolding ext_stmt_x64_def
proof (intro allI impI)
  fix c c' :: Compiler
  let ?c2 = "c\<lparr>label_count := label_count c + 1 + 1\<rparr>"
  let ?post = "[(''    jmp L%d'', [I (label_count c)]), (''L%d:'', [I (label_count c + 1)])]"
  assume "gen_stmt_x64 (AST_FOR init cond update body) c = Inr c'"
  then obtain c3 c5 c6 c7 where
    i: "(case init of None \<Rightarrow> Inr ?c2 | Some i \<Rightarrow> gen_stmt_x64 i ?c2) = Inr c3"
    and co: "(case cond of
              None \<Rightarrow> Inr (emit c3 ''L%d:'' [I (label_count c)])
            | Some e \<Rightarrow>
                bindE (gen_expr_x64 e (emit c3 ''L%d:'' [I (label_count c)])) (\<lambda>c4.
                  Inr (emits c4 [(''    testl %%eax, %%eax'', []), (''    je L%d'', [I (label_count c + 1)])]))) = Inr c5"
    and b: "gen_stmt_x64 body c5 = Inr c6"
    and u: "(case update of None \<Rightarrow> Inr c6 | Some u \<Rightarrow> gen_expr_x64 u c6) = Inr c7"
    and c': "Inr (emits c7 ?post) = (Inr c' :: failure + Compiler)"
    unfolding gen_stmt_x64_for_eq bindE_Inr_iff by blast
  have inner1: "ext ?c2 c3"
  proof (cases init)
    case None
    with i show ?thesis by simp
  next
    case (Some st)
    with i have "gen_stmt_x64 st ?c2 = Inr c3" by simp
    with assms(2) [OF Some] show ?thesis by (rule ext_stmt_x64D)
  qed
  have "ext (emit c3 ''L%d:'' [I (label_count c)]) c5"
  proof (cases cond)
    case None
    with co show ?thesis by simp
  next
    case (Some e)
    with co obtain c4 where g: "gen_expr_x64 e (emit c3 ''L%d:'' [I (label_count c)]) = Inr c4"
      and c5: "c5 = emits c4 [(''    testl %%eax, %%eax'', []), (''    je L%d'', [I (label_count c + 1)])]"
      by (auto simp: bindE_Inr_iff)
    have "ext (emit c3 ''L%d:'' [I (label_count c)]) c4" using g by (rule gen_expr_x64_ext)
    also have "ext c4 c5" unfolding c5 by (rule ext_emits) (simp add: label_of_def)
    finally show ?thesis .
  qed
  also have "ext c5 c6" using assms(1) b by (rule ext_stmt_x64D)
  also have "ext c6 c7"
  proof (cases update)
    case None
    with u show ?thesis by simp
  next
    case (Some e)
    with u show ?thesis by (simp add: gen_expr_x64_ext)
  qed
  finally have inner2: "ext (emit c3 ''L%d:'' [I (label_count c)]) c7" .
  from c' have c'': "c' = emits c7 ?post" by simp
  show "ext c c'"
    by (rule ext_wrap2 [where ca = ?c2 and cb = c3 and cc = "emit c3 ''L%d:'' [I (label_count c)]"
            and cd = c7 and k = 2
            and pre = "[]" and mid = "[(''L%d:'', [I (label_count c)])]" and post = ?post,
            OF _ _ _ inner1 _ _ inner2])
       (simp_all add: c'' label_of_def del: emits_Cons)
qed

lemma ext_stmt_x64_vardecl: "ext_stmt_x64 (AST_VARDECL nm init arr sz)"
  unfolding ext_stmt_x64_def
proof (intro allI impI)
  fix c c' :: Compiler
  assume "gen_stmt_x64 (AST_VARDECL nm init arr sz) c = Inr c'"
  then obtain c1 where a: "add_symbol c nm False False 0 = Inr c1"
    and r: "(case init of None \<Rightarrow> Inr (if arr then set_array c1 sz else c1)
             | Some e \<Rightarrow> bindE (gen_expr_x64 e (if arr then set_array c1 sz else c1)) (\<lambda>c3.
            Inr (emit c3 ''    movl %%eax, -%d(%%rbp)'' [I (offset (last_symbol (if arr then set_array c1 sz else c1)))]))) = Inr c'"
    by (auto simp: bindE_Inr_iff Let_def)
  have "ext c c1" using a by (rule ext_add_symbol)
  also have "ext c1 (if arr then set_array c1 sz else c1)"
    by (simp add: ext_set_array)
  also have "ext \<dots> c'"
  proof (cases init)
    case None
    with r show ?thesis by auto
  next
    case (Some e)
    with r obtain c3 where g: "gen_expr_x64 e (if arr then set_array c1 sz else c1) = Inr c3"
      and c': "c' = emit c3 ''    movl %%eax, -%d(%%rbp)'' [I (offset (last_symbol (if arr then set_array c1 sz else c1)))]"
      by (auto simp: bindE_Inr_iff)
    have "ext (if arr then set_array c1 sz else c1) c3" using g by (rule gen_expr_x64_ext)
    also have "ext c3 c'" unfolding c' by (rule ext_emit) (simp add: label_of_def)
    finally show ?thesis .
  qed
  finally show "ext c c'" .
qed

lemma ext_stmt_x64_return: "ext_stmt_x64 (AST_RETURN v)"
  unfolding ext_stmt_x64_def
proof (intro allI impI)
  fix c c' :: Compiler
  assume "gen_stmt_x64 (AST_RETURN v) c = Inr c'"
  then obtain c1 where g: "(case v of None \<Rightarrow> Inr c | Some e \<Rightarrow> gen_expr_x64 e c) = Inr c1"
    and c': "c' = emits c1 epilogue_x64"
    by (auto simp: bindE_Inr_iff simp del: emits_Cons)
  have "ext c c1" using g by (cases v) (simp_all add: gen_expr_x64_ext)
  also have "ext c1 c'" unfolding c' by (rule ext_emits) (simp add: epilogue_x64_def label_of_def)
  finally show "ext c c'" .
qed

lemma gen_stmt_x64_ext_all: "ext_stmt_x64 st"
proof (induction st)
  case (AST_IF cond t e)
  show ?case
    by (rule ext_stmt_x64_if) (use AST_IF in auto)
next
  case (AST_WHILE cond body)
  then show ?case by (simp add: ext_stmt_x64_while)
next
  case (AST_FOR init cond update body)
  show ?case
    by (rule ext_stmt_x64_for) (use AST_FOR in auto)
next
  case (AST_BLOCK stmts)
  show ?case
    unfolding ext_stmt_x64_def
  proof (intro allI impI)
    fix c c' :: Compiler
    assume "gen_stmt_x64 (AST_BLOCK stmts) c = Inr c'"
    then show "ext c c'"
      using gen_stmts_x64_ext [OF AST_BLOCK.IH, of stmts c c'] by simp
  qed
qed (simp_all add: ext_stmt_x64_vardecl ext_stmt_x64_return ext_stmt_x64_expr)

lemma save_params_arm64_ext: "save_params_arm64 i ps c = Inr c' \<Longrightarrow> ext c c'"
proof (induction ps arbitrary: i c)
  case Nil
  then show ?case by simp
next
  case (Cons p ps)
  from Cons.prems obtain c1 where a: "add_symbol c p False True (int i) = Inr c1"
    and r: "save_params_arm64 (i + 1) ps
        (emit c1 ''    str x%d, [x29, #%d]'' [I (int i), I (- (int i + 1) * 8)]) = Inr c'"
    by (auto simp: bindE_Inr_iff)
  have "ext c c1" using a by (rule ext_add_symbol)
  also have "ext c1 (emit c1 ''    str x%d, [x29, #%d]'' [I (int i), I (- (int i + 1) * 8)])"
    by (rule ext_emit) (simp add: label_of_def)
  also have "ext \<dots> c'" using r by (rule Cons.IH)
  finally show ?case .
qed

lemma save_params_x64_ext: "save_params_x64 i ps c = Inr c' \<Longrightarrow> ext c c'"
proof (induction ps arbitrary: i c)
  case Nil
  then show ?case by simp
next
  case (Cons p ps)
  show ?case
  proof (cases "i < 6")
    case True
    with Cons.prems obtain c1 where a: "add_symbol c p False True (int i) = Inr c1"
      and r: "save_params_x64 (i + 1) ps
          (emit c1 ''    movq %%%s, %d(%%rbp)'' [S (regs_x64 ! i), I (- (int i + 1) * 8)]) = Inr c'"
      by (auto simp: bindE_Inr_iff)
    have "ext c c1" using a by (rule ext_add_symbol)
    also have "ext c1 (emit c1 ''    movq %%%s, %d(%%rbp)'' [S (regs_x64 ! i), I (- (int i + 1) * 8)])"
      by (rule ext_emit) (simp add: label_of_def)
    also have "ext \<dots> c'" using r by (rule Cons.IH)
    finally show ?thesis .
  next
    case False
    with Cons.prems show ?thesis by simp
  qed
qed

lemma func_entry_arm64_ext: "func_entry_arm64 f ps c = Inr c' \<Longrightarrow> ext c c'"
proof -
  assume "func_entry_arm64 f ps c = Inr c'"
  then obtain c0 c2 where s: "save_params_arm64 0 ps c0 = Inr c2"
    and c0: "c0 = emits (c\<lparr>stack_offset := 0\<rparr>)
                [(''.globl _%s'', [S f]), (''.p2align 2'', []), (''_%s:'', [S f]),
                 (''    stp x29, x30, [sp, #-16]!'', []), (''    mov x29, sp'', []),
                 (''    sub sp, sp, #256'', [])]"
    and c': "c' = c2\<lparr>stack_offset := int (length ps) * 8\<rparr>"
    unfolding func_entry_arm64_def Let_def by (auto simp: bindE_Inr_iff simp del: emits_Cons)
  have "ext c (c\<lparr>stack_offset := 0\<rparr>)" by (rule ext_same) simp_all
  also have "ext \<dots> c0" unfolding c0 by (rule ext_emits) (simp add: label_of_def)
  also have "ext c0 c2" using s by (rule save_params_arm64_ext)
  also have "ext c2 c'" unfolding c' by (rule ext_same) simp_all
  finally show ?thesis .
qed

lemma func_entry_x64_ext: "func_entry_x64 f ps c = Inr c' \<Longrightarrow> ext c c'"
proof -
  assume "func_entry_x64 f ps c = Inr c'"
  then obtain c0 c2 where s: "save_params_x64 0 ps c0 = Inr c2"
    and c0: "c0 = emits (c\<lparr>stack_offset := 0\<rparr>)
                [(''.globl %s%s'', [S (if is_linux c then [] else ''_''), S f]),
                 (''%s%s:'', [S (if is_linux c then [] else ''_''), S f]),
                 (''    pushq %%rbp'', []), (''    movq %%rsp, %%rbp'', []),
                 (''    subq $256, %%rsp'', [])]"
    and c': "c' = c2\<lparr>stack_offset := int (length ps) * 8\<rparr>"
    unfolding func_entry_x64_def Let_def by (auto simp: bindE_Inr_iff simp del: emits_Cons)
  have "ext c (c\<lparr>stack_offset := 0\<rparr>)" by (rule ext_same) simp_all
  also have "ext \<dots> c0" unfolding c0 by (rule ext_emits) (simp add: label_of_def)
  also have "ext c0 c2" using s by (rule save_params_x64_ext)
  also have "ext c2 c'" unfolding c' by (rule ext_same) simp_all
  finally show ?thesis .
qed

lemma gen_func_arm64_ext: "gen_func_arm64 fn c = Inr c' \<Longrightarrow> ext c c'"
proof (cases fn)
  case (AST_FUNC f ps body v)
  assume "gen_func_arm64 fn c = Inr c'"
  with AST_FUNC obtain c1 c2 where e: "func_entry_arm64 f ps c = Inr c1"
    and b: "gen_stmt_arm64 body c1 = Inr c2"
    and c': "c' = (emits c2 (epilogue_arm64 @ [([], [])]))\<lparr>nsymbols := nsymbols c\<rparr>"
    by (auto simp: bindE_Inr_iff simp del: emits_Cons)
  have "ext c c1" using e by (rule func_entry_arm64_ext)
  also have "ext c1 c2" using gen_stmt_arm64_ext_all b by (rule ext_stmt_arm64D)
  also have "ext c2 (emits c2 (epilogue_arm64 @ [([], [])]))"
    by (rule ext_emits) (simp add: epilogue_arm64_def label_of_def)
  also have "ext \<dots> c'" unfolding c' by (rule ext_same) simp_all
  finally show ?thesis .
qed simp_all

lemma gen_func_x64_ext: "gen_func_x64 fn c = Inr c' \<Longrightarrow> ext c c'"
proof (cases fn)
  case (AST_FUNC f ps body v)
  assume "gen_func_x64 fn c = Inr c'"
  with AST_FUNC obtain c1 c2 where e: "func_entry_x64 f ps c = Inr c1"
    and b: "gen_stmt_x64 body c1 = Inr c2"
    and c': "c' = (emits c2 (epilogue_x64 @ [([], [])]))\<lparr>nsymbols := nsymbols c\<rparr>"
    by (auto simp: bindE_Inr_iff simp del: emits_Cons)
  have "ext c c1" using e by (rule func_entry_x64_ext)
  also have "ext c1 c2" using gen_stmt_x64_ext_all b by (rule ext_stmt_x64D)
  also have "ext c2 (emits c2 (epilogue_x64 @ [([], [])]))"
    by (rule ext_emits) (simp add: epilogue_x64_def label_of_def)
  also have "ext \<dots> c'" unfolding c' by (rule ext_same) simp_all
  finally show ?thesis .
qed simp_all

lemma gen_funcs_arm64_ext: "gen_funcs_arm64 fs c = Inr c' \<Longrightarrow> ext c c'"
proof (induction fs arbitrary: c)
  case Nil
  then show ?case by simp
next
  case (Cons f fs)
  from Cons.prems obtain c1 where a: "gen_func_arm64 f c = Inr c1" and r: "gen_funcs_arm64 fs c1 = Inr c'"
    by (auto simp: bindE_Inr_iff)
  have "ext c c1" using a by (rule gen_func_arm64_ext)
  also have "ext c1 c'" using r by (rule Cons.IH)
  finally show ?case .
qed

lemma gen_funcs_x64_ext: "gen_funcs_x64 fs c = Inr c' \<Longrightarrow> ext c c'"
proof (induction fs arbitrary: c)
  case Nil
  then show ?case by simp
next
  case (Cons f fs)
  from Cons.prems obtain c1 where a: "gen_func_x64 f c = Inr c1" and r: "gen_funcs_x64 fs c1 = Inr c'"
    by (auto simp: bindE_Inr_iff)
  have "ext c c1" using a by (rule gen_func_x64_ext)
  also have "ext c1 c'" using r by (rule Cons.IH)
  finally show ?case .
qed

lemma add_globals_ext: "add_globals gs c = Inr c' \<Longrightarrow> ext c c'"
proof (induction gs c rule: add_globals.induct)
  case (1 c)
  then show ?case by simp
next
  case (2 nm init arr sz gs c)
  from "2.prems" obtain c1 where a: "add_symbol c nm True False 0 = Inr c1"
    and r: "add_globals gs (if arr then
           c1\<lparr>symbols := sym_write (symbols c1) (nsymbols c1 - 1)
                  ((last_symbol c1)\<lparr>is_array := True, array_size := sz\<rparr>)\<rparr>
         else c1) = Inr c'"
    by (auto simp: bindE_Inr_iff)
  have "ext c c1" using a by (rule ext_add_symbol)
  also have "ext c1 (if arr then
           c1\<lparr>symbols := sym_write (symbols c1) (nsymbols c1 - 1)
                  ((last_symbol c1)\<lparr>is_array := True, array_size := sz\<rparr>)\<rparr>
         else c1)"
    by (rule ext_same) simp_all
  also have "ext \<dots> c'" using "2.IH" [OF a r] .
  finally show ?case .
qed simp_all

lemma label_defs_global_data: "label_defs (concat (map (global_data al prefix) gs)) = []"
proof (induction gs)
  case Nil
  then show ?case by simp
next
  case (Cons g gs)
  have "label_defs (global_data al prefix g) = []"
    by (cases g) (simp_all add: label_of_def split: option.splits)
  with Cons show ?case by simp
qed

lemma label_defs_string_data: "label_defs (string_data prefix strs) = []"
proof -
  have "label_defs (concat (map (\<lambda>(i, s). [(''%sstr%d:'', [S prefix, I (int i)]),
                             (''    .asciz '' @ [DQUOTE] @ ''%s'' @ [DQUOTE], [S s])]) xs)) = []" for xs
    by (induction xs) (auto simp: label_of_def)
  then show ?thesis
    by (simp add: string_data_def)
qed

lemma gen_program_arm64_ext: "gen_program_arm64 prog c = Inr c' \<Longrightarrow> ext c c'"
proof (cases prog)
  case (AST_PROGRAM funcs globals)
  assume "gen_program_arm64 prog c = Inr c'"
  with AST_PROGRAM obtain c1 c2 tl where g: "add_globals globals c = Inr c1"
    and f: "gen_funcs_arm64 funcs (emits c1 [(if is_linux c1 then (''.section .text'', [])
                         else (''.section __TEXT,__text'', [])), ([], [])]) = Inr c2"
    and o: "out c' = out c2 @ tl" and l: "label_count c' = label_count c2"
    and tl: "label_defs tl = []"
    by (auto simp: bindE_Inr_iff Let_def label_of_def label_defs_global_data label_defs_string_data
             simp del: emits_Cons)
  have "ext c c1" using g by (rule add_globals_ext)
  also have "ext c1 (emits c1 [(if is_linux c1 then (''.section .text'', [])
                         else (''.section __TEXT,__text'', [])), ([], [])])"
    by (rule ext_emits) (simp add: label_of_def)
  also have "ext \<dots> c2" using f by (rule gen_funcs_arm64_ext)
  also have "ext c2 c'" using o l tl by (simp add: ext_def)
  finally show ?thesis .
qed simp_all

lemma gen_program_x64_ext: "gen_program_x64 prog c = Inr c' \<Longrightarrow> ext c c'"
proof (cases prog)
  case (AST_PROGRAM funcs globals)
  assume "gen_program_x64 prog c = Inr c'"
  with AST_PROGRAM obtain c1 c2 tl where g: "add_globals globals c = Inr c1"
    and f: "gen_funcs_x64 funcs (emits c1 [(if is_linux c1 then (''.section .text'', [])
                         else (''.section __TEXT,__text'', [])), ([], [])]) = Inr c2"
    and o: "out c' = out c2 @ tl" and l: "label_count c' = label_count c2"
    and tl: "label_defs tl = []"
    by (auto simp: bindE_Inr_iff Let_def label_of_def label_defs_global_data label_defs_string_data
             simp del: emits_Cons)
  have "ext c c1" using g by (rule add_globals_ext)
  also have "ext c1 (emits c1 [(if is_linux c1 then (''.section .text'', [])
                         else (''.section __TEXT,__text'', [])), ([], [])])"
    by (rule ext_emits) (simp add: label_of_def)
  also have "ext \<dots> c2" using f by (rule gen_funcs_x64_ext)
  also have "ext c2 c'" using o l tl by (simp add: ext_def)
  finally show ?thesis .
qed simp_all

subsection \<open>The lexer and the parser write no output and allocate no label\<close>

declare skip_line_comment.simps [simp del] skip_block_comment.simps [simp del] skip_whitespace.simps [simp del] lex_ident.simps [simp del] lex_number.simps [simp del] lex_string.simps [simp del]

lemma advance_out: "advance c = Inr (ch, c') \<Longrightarrow> out c' = out c \<and> label_count c' = label_count c"
  by (auto simp: advance_def bindE_Inr_iff split: if_splits)

lemma skip_line_comment_out:
  "skip_line_comment c = Inr c' \<Longrightarrow> out c' = out c \<and> label_count c' = label_count c"
proof (induction c rule: skip_line_comment.induct)
  case (1 c)
  from "1.prems" obtain ch where ch: "peek c = Inr ch"
    by (subst (asm) skip_line_comment.simps) (auto simp: bindE_Inr_iff)
  show ?case
  proof (cases "ch \<noteq> NUL \<and> ch \<noteq> NL")
    case True
    with "1.prems" ch obtain x c1 where a: "advance c = Inr (x, c1)" and r: "skip_line_comment c1 = Inr c'"
      by (subst (asm) skip_line_comment.simps) (auto simp: bindE_Inr_iff)
    from "1.IH" [OF ch True a refl r] advance_out [OF a] show ?thesis by simp
  next
    case False
    with "1.prems" ch show ?thesis
      by (subst (asm) skip_line_comment.simps) auto
  qed
qed


lemma skip_block_comment_out:
  "skip_block_comment c = Inr c' \<Longrightarrow> out c' = out c \<and> label_count c' = label_count c"
proof (induction c rule: skip_block_comment.induct)
  case (1 c)
  from "1.prems" obtain ch where ch: "peek c = Inr ch"
    by (subst (asm) skip_block_comment.simps) (auto simp: bindE_Inr_iff)
  show ?case
  proof (cases "ch = NUL")
    case True
    with "1.prems" ch show ?thesis
      by (subst (asm) skip_block_comment.simps) auto
  next
    case nz: False
    show ?thesis
    proof (cases "ch = CHR ''*''")
      case star: True
      with "1.prems" ch obtain ch2 where ch2: "rd c (pos c + 1) = Inr ch2"
        by (subst (asm) skip_block_comment.simps) (auto simp: bindE_Inr_iff)
      show ?thesis
      proof (cases "ch2 = CHR ''/''")
        case True
        with "1.prems" ch ch2 star show ?thesis
          by (subst (asm) skip_block_comment.simps) auto
      next
        case False
        with "1.prems" ch ch2 star obtain x c1
          where a: "advance c = Inr (x, c1)" and r: "skip_block_comment c1 = Inr c'"
          by (subst (asm) skip_block_comment.simps) (auto simp: bindE_Inr_iff)
        from "1.IH"(1) [OF ch nz star ch2 False a refl r] advance_out [OF a]
        show ?thesis by simp
      qed
    next
      case False
      with "1.prems" ch nz obtain x c1
        where a: "advance c = Inr (x, c1)" and r: "skip_block_comment c1 = Inr c'"
        by (subst (asm) skip_block_comment.simps) (auto simp: bindE_Inr_iff)
      from "1.IH"(2) [OF ch nz False a refl r] advance_out [OF a]
      show ?thesis by simp
    qed
  qed
qed

lemma skip_block_out:
  assumes "skip_block c = Inr c'"
  shows "out c' = out c \<and> label_count c' = label_count c"
proof -
  from assms obtain x1 c1 x2 c2 c3 ch
    where a1: "advance c = Inr (x1, c1)" and a2: "advance c1 = Inr (x2, c2)"
      and b: "skip_block_comment c2 = Inr c3" and p: "peek c3 = Inr ch"
      and r: "(if ch \<noteq> NUL then
                 bindE (advance c3) (\<lambda>(x, c4). bindE (advance c4) (\<lambda>(x, c5). Inr c5))
               else Inr c3) = Inr c'"
    unfolding skip_block_def by (auto simp: bindE_Inr_iff)
  have s3: "out c3 = out c \<and> label_count c3 = label_count c"
    using advance_out [OF a1] advance_out [OF a2] skip_block_comment_out [OF b] by simp
  show ?thesis
  proof (cases "ch \<noteq> NUL")
    case True
    with r obtain x4 c4 x5 where a4: "advance c3 = Inr (x4, c4)" and a5: "advance c4 = Inr (x5, c')"
      by (auto simp: bindE_Inr_iff)
    from advance_out [OF a4] advance_out [OF a5] s3 show ?thesis by simp
  next
    case False
    with r s3 show ?thesis by simp
  qed
qed

lemma skip_whitespace_out:
  "skip_whitespace c = Inr c' \<Longrightarrow> out c' = out c \<and> label_count c' = label_count c"
proof (induction c rule: skip_whitespace.induct)
  case (1 c)
  from "1.prems" obtain ch where ch: "peek c = Inr ch"
    by (subst (asm) skip_whitespace.simps) (auto simp: bindE_Inr_iff)
  show ?case
  proof (cases "ch = CHR '' '' \<or> ch = CHR 0x09 \<or> ch = NL \<or> ch = CHR 0x0D")
    case ws: True
    with "1.prems" ch obtain x c1 where a: "advance c = Inr (x, c1)" and r: "skip_whitespace c1 = Inr c'"
      by (subst (asm) skip_whitespace.simps) (auto simp: bindE_Inr_iff)
    from "1.IH"(1) [OF ch ws a refl r] advance_out [OF a] show ?thesis by simp
  next
    case nws: False
    show ?thesis
    proof (cases "ch = CHR ''/''")
      case sl: True
      with "1.prems" ch nws obtain ch2 where ch2: "rd c (pos c + 1) = Inr ch2"
        by (subst (asm) skip_whitespace.simps) (auto simp: bindE_Inr_iff)
      show ?thesis
      proof (cases "ch2 = CHR ''/''")
        case True
        with "1.prems" ch nws sl ch2 obtain c1 where a: "skip_line_comment c = Inr c1"
          and r: "skip_whitespace c1 = Inr c'"
          by (subst (asm) skip_whitespace.simps) (auto simp: bindE_Inr_iff)
        from "1.IH"(2) [OF ch nws sl ch2 True a r] skip_line_comment_out [OF a] show ?thesis by simp
      next
        case nsl: False
        show ?thesis
        proof (cases "ch2 = CHR ''*''")
          case True
          with "1.prems" ch nws sl ch2 nsl obtain c1 where a: "skip_block c = Inr c1"
            and r: "skip_whitespace c1 = Inr c'"
            by (subst (asm) skip_whitespace.simps) (auto simp: bindE_Inr_iff)
          from "1.IH"(3) [OF ch nws sl ch2 nsl True a r] skip_block_out [OF a] show ?thesis by simp
        next
          case False
          with "1.prems" ch nws sl ch2 nsl show ?thesis
            by (subst (asm) skip_whitespace.simps) auto
        qed
      qed
    next
      case False
      with "1.prems" ch nws show ?thesis
        by (subst (asm) skip_whitespace.simps) auto
    qed
  qed
qed

lemma lex_ident_out:
  "lex_ident c = Inr c' \<Longrightarrow> out c' = out c \<and> label_count c' = label_count c"
proof (induction c rule: lex_ident.induct)
  case (1 c)
  from "1.prems" obtain ch where ch: "peek c = Inr ch"
    by (subst (asm) lex_ident.simps) (auto simp: bindE_Inr_iff)
  show ?case
  proof (cases "isalnum ch \<or> ch = CHR ''_''")
    case True
    with "1.prems" ch obtain x c1 where a: "advance c = Inr (x, c1)" and r: "lex_ident c1 = Inr c'"
      by (subst (asm) lex_ident.simps) (auto simp: bindE_Inr_iff)
    from "1.IH" [OF ch True a refl r] advance_out [OF a] show ?thesis by simp
  next
    case False
    with "1.prems" ch show ?thesis
      by (subst (asm) lex_ident.simps) auto
  qed
qed

lemma lex_number_out:
  "lex_number c = Inr c' \<Longrightarrow> out c' = out c \<and> label_count c' = label_count c"
proof (induction c rule: lex_number.induct)
  case (1 c)
  from "1.prems" obtain ch where ch: "peek c = Inr ch"
    by (subst (asm) lex_number.simps) (auto simp: bindE_Inr_iff)
  show ?case
  proof (cases "isdigit ch")
    case True
    with "1.prems" ch obtain d c1 where a: "advance c = Inr (d, c1)"
      and r: "lex_number (c1\<lparr>cur := (cur c1)\<lparr>num := int32 (num (cur c1) * 10 + (of_char d - 48))\<rparr>\<rparr>) = Inr c'"
      by (subst (asm) lex_number.simps) (auto simp: bindE_Inr_iff)
    from "1.IH" [OF ch True a refl r] advance_out [OF a] show ?thesis by simp
  next
    case False
    with "1.prems" ch show ?thesis
      by (subst (asm) lex_number.simps) auto
  qed
qed

lemma lex_string_out:
  "lex_string c = Inr c' \<Longrightarrow> out c' = out c \<and> label_count c' = label_count c"
proof (induction c rule: lex_string.induct)
  case (1 c)
  from "1.prems" obtain ch where ch: "peek c = Inr ch"
    by (subst (asm) lex_string.simps) (auto simp: bindE_Inr_iff)
  show ?case
  proof (cases "ch \<noteq> NUL \<and> ch \<noteq> DQUOTE")
    case True
    with "1.prems" ch obtain c1 x c2 where
      b: "(if ch = BACKSLASH then bindE (advance c) (\<lambda>(x, c1). Inr c1) else Inr c) = Inr c1"
      and a: "advance c1 = Inr (x, c2)" and r: "lex_string c2 = Inr c'"
      by (subst (asm) lex_string.simps) (auto simp: bindE_Inr_iff)
    from b have "out c1 = out c \<and> label_count c1 = label_count c"
      by (auto simp: bindE_Inr_iff split: if_splits dest!: advance_out)
    with "1.IH" [OF ch True b a refl r] advance_out [OF a] show ?thesis by simp
  next
    case False
    with "1.prems" ch show ?thesis
      by (subst (asm) lex_string.simps) auto
  qed
qed

lemma set_type_out [simp]: "out (set_type t c) = out c" "label_count (set_type t c) = label_count c"
  by (simp_all add: set_type_def)



lemma two_char_out:
  assumes "two_char c second t otherwise = Inr c'"
    and "\<And>c''. otherwise = Inr c'' \<Longrightarrow> out c'' = out c \<and> label_count c'' = label_count c"
  shows "out c' = out c \<and> label_count c' = label_count c"
  using assms unfolding two_char_def
  by (auto simp: bindE_Inr_iff split: if_splits dest!: advance_out)

lemma lex_operator_out:
  "lex_operator c ch = Inr c' \<Longrightarrow> out c' = out c \<and> label_count c' = label_count c"
  unfolding lex_operator_def
  by (auto simp: error_def split: if_splits elim!: two_char_out)


lemma next_token_out:
  "next_token c = Inr c' \<Longrightarrow> out c' = out c \<and> label_count c' = label_count c"
  unfolding next_token_def Let_def
  by (auto simp: bindE_Inr_iff split: if_splits
      dest!: skip_whitespace_out lex_ident_out lex_number_out lex_string_out advance_out lex_operator_out)

lemma accept_out:
  "accept c t = Inr (b, c') \<Longrightarrow> out c' = out c \<and> label_count c' = label_count c"
  unfolding accept_def by (auto simp: bindE_Inr_iff split: if_splits dest!: next_token_out)

lemma expect_out:
  "expect c t = Inr c' \<Longrightarrow> out c' = out c \<and> label_count c' = label_count c"
  unfolding expect_def by (auto simp: bindE_Inr_iff error_def split: if_splits dest!: accept_out)

lemma parse_out:
  "parse n nt c = Inr (a, c') \<Longrightarrow> out c' = out c \<and> label_count c' = label_count c"
proof (induction n arbitrary: nt c a c')
  case 0
  then show ?case by simp
next
  case (Suc n)
  note IH = Suc.IH
  from Suc.prems show ?case
    by (cases nt)
       (auto simp: bindE_Inr_iff error_def split: if_splits dest!: next_token_out expect_out IH)
qed


lemma parse_expr_out:
  "parse_expr n c = Inr (a, c') \<Longrightarrow> out c' = out c \<and> label_count c' = label_count c"
  unfolding parse_expr_def by (rule parse_out)

lemma parse_s_out:
  "parse_s n f c = Inr (a, c') \<Longrightarrow> out c' = out c \<and> label_count c' = label_count c"
proof (induction n arbitrary: f c a c')
  case 0
  then show ?case by simp
next
  case (Suc n)
  note IH = Suc.IH
  from Suc.prems show ?case
    by (cases f)
       (auto simp: bindE_Inr_iff error_def split: if_splits
             dest!: next_token_out expect_out parse_expr_out IH)
qed

lemma params_loop_out:
  "params_loop n ps c = Inr (a, c') \<Longrightarrow> out c' = out c \<and> label_count c' = label_count c"
proof (induction n arbitrary: ps c a c')
  case 0
  then show ?case by simp
next
  case (Suc n)
  note IH = Suc.IH
  from Suc.prems show ?case
    by (auto simp: bindE_Inr_iff split: if_splits dest!: next_token_out expect_out IH)
qed

lemma program_loop_out:
  "program_loop n fs gs c = Inr (a, c') \<Longrightarrow> out c' = out c \<and> label_count c' = label_count c"
proof (induction n arbitrary: fs gs c a c')
  case 0
  then show ?case by simp
next
  case (Suc n)
  note IH = Suc.IH
  from Suc.prems show ?case
    by (auto simp: bindE_Inr_iff error_def parse_block_def split: if_splits
             dest!: next_token_out expect_out parse_expr_out parse_s_out params_loop_out IH)
qed

lemma compile_ext:
  assumes "compile arm linux fuel text = Inr c"
  shows "ext (init_compiler arm linux text) c"
proof -
  from assms obtain c0 prog c1 where n: "next_token (init_compiler arm linux text) = Inr c0"
    and p: "program_loop fuel [] [] c0 = Inr (prog, c1)"
    and g: "(if is_arm64 c1 then gen_program_arm64 prog c1 else gen_program_x64 prog c1) = Inr c"
    unfolding compile_def do_parse_program_def by (auto simp: bindE_Inr_iff)
  from next_token_out [OF n] program_loop_out [OF p]
  have s: "out c1 = out (init_compiler arm linux text)"
          "label_count c1 = label_count (init_compiler arm linux text)" by simp_all
  from g have "ext c1 c"
    by (auto split: if_splits intro: gen_program_arm64_ext gen_program_x64_ext)
  with s show ?thesis by (simp add: ext_def)
qed

subsection \<open>Recursion depth of the expression parser on three operands\<close>

lemma fuel_12: "n + 12 = Suc (Suc (Suc (Suc (Suc (Suc (Suc (Suc (Suc (Suc (Suc (Suc n)))))))))))"
  by simp

subsection \<open>Running the code of a binary operator\<close>





section \<open>Claims\<close>

text \<open>C9. The claim: for every input buffer the lexer terminates and never reads a byte
  behind the terminating NUL, also when the input ends inside a string literal whose last
  character is a backslash. The string loop of \<open>next_token\<close> checks for the NUL before each
  round, but inside the round a backslash makes it advance twice without a check. On the
  two-byte input \<open>"\<close> \<open>\\<close> the second advance steps over the NUL and the next \<open>peek\<close> reads the
  byte behind the buffer.\<close>

theorem C9_backslash_at_end_reads_past_nul:
  "next_token (init_compiler True False [DQUOTE, BACKSLASH]) = Inl OutOfBounds"
  by code_simp

text \<open>C5. The claim: every reference to a name without a symbol-table entry ends in the
  diagnostic line and exit status 1. The read, the address-of, the array read and the
  assignment to a variable test the result of \<open>find_symbol\<close>; the assignment to an array
  element does not and dereferences the NULL pointer, in both generators.\<close>

theorem C5_array_store_to_undefined_name_derefs_null:
  "compile True False 40 ''int f() { a[0] = 1; }'' = Inl NullDeref
   \<and> compile False False 40 ''int f() { a[0] = 1; }'' = Inl NullDeref"
  by code_simp

text \<open>C1. The claim: for a compound assignment to an array element both generators emit
  the load, the operation and the store. The array branch of \<open>AST_ASSIGN\<close> never looks at
  the compound marker: whatever the marker, the code is that of the plain assignment, which
  stores the right-hand side.\<close>

theorem C1_array_compound_assignment_is_plain_store:
  "gen_expr_arm64 (AST_ASSIGN (AST_ARRAY_ACCESS a i) e op) c
     = gen_expr_arm64 (AST_ASSIGN (AST_ARRAY_ACCESS a i) e NUL) c
   \<and> gen_expr_x64 (AST_ASSIGN (AST_ARRAY_ACCESS a i) e op) c
     = gen_expr_x64 (AST_ASSIGN (AST_ARRAY_ACCESS a i) e NUL) c"
  by simp



text \<open>C7. The claim: in the AST of every accepted program the left child of an assignment
  node is a variable reference or an array access. \<open>parse_assignment\<close> takes whatever
  \<open>parse_logical_or\<close> returned as the left child, without a test: \<open>1 = 2;\<close> is accepted.\<close>

theorem C7_assignment_to_literal_counterexample:
  "bindE (bindE (next_token (init_compiler True False ''int f() { 1 = 2; }'')) (do_parse_program 30))
         (\<lambda>(program, c). Inr program)
     = Inr (AST_PROGRAM [AST_FUNC ''f'' [] (AST_BLOCK [AST_ASSIGN (AST_NUM 1) (AST_NUM 2) NUL]) False] [])"
  by code_simp

text \<open>C7, amended: no other expression form is ever used as the target of a store. For an
  assignment node whose left child is neither a variable reference nor an array access,
  both generators emit the code of the right-hand side and nothing else.\<close>

theorem C7_only_lvalues_are_stored_to:
  assumes "\<not> is_lvalue left"
  shows "gen_expr_arm64 (AST_ASSIGN left right op) c = gen_expr_arm64 right c
       \<and> gen_expr_x64 (AST_ASSIGN left right op) c = gen_expr_x64 right c"
  using assms by (cases left) (simp_all add: bindE_Inr_right)

theorem C7_only_lvalues_are_stored_to_witness:
  "\<not> is_lvalue (AST_NUM 1)
   \<and> gen_expr_arm64 (AST_ASSIGN (AST_NUM 1) (AST_NUM 2) NUL) (init_compiler True False [])
     = gen_expr_arm64 (AST_NUM 2) (init_compiler True False [])
   \<and> gen_expr_x64 (AST_ASSIGN (AST_NUM 1) (AST_NUM 2) NUL) (init_compiler False False [])
     = gen_expr_x64 (AST_NUM 2) (init_compiler False False [])"
  using C7_only_lvalues_are_stored_to [of "AST_NUM 1" "AST_NUM 2" NUL "init_compiler True False []"]
        C7_only_lvalues_are_stored_to [of "AST_NUM 1" "AST_NUM 2" NUL "init_compiler False False []"]
  by simp







text \<open>C6. The claim: every local symbol gets an offset that is a positive multiple of 4 and
  less than 256, and a program that needs more is rejected with a diagnostic. Neither
  \<open>add_symbol\<close> nor the declaration case of \<open>gen_stmt\<close> compares the offset with anything:
  \<open>int a[100];\<close> as the first local gets the offset 404, the program is compiled and
  the offset is used in the emitted code.\<close>

theorem C6_offset_beyond_frame_counterexample:
  "bindE (compile True False 40 ''int f() { int a[100]; a[0] = 1; }'')
         (\<lambda>c. Inr (name (sym_at (symbols c) 0), offset (sym_at (symbols c) 0),
                     (''    sub x1, x29, #%d'', [I 404]) \<in> set (out c)))
     = Inr (''a'', 404, True)"
  by code_simp

text \<open>C6, amended: for every function whose body the code generator emits, every local
  symbol in the symbol table has a stack offset that is a positive multiple of 4, provided
  the array sizes declared in the body are not negative. (No upper bound holds and nothing
  is rejected.) The statement is about the table at the end of the body, which holds all
  the locals added during it; the offsets are computed in exact integers.\<close>

theorem C6_local_offsets_positive_multiples_of_4:
  assumes "locals_ok c" and "sizes_ok body"
  shows "(func_entry_arm64 f params c = Inr c1 \<longrightarrow> gen_stmt_arm64 body c1 = Inr c2 \<longrightarrow> locals_ok c2)
       \<and> (func_entry_x64 f params c = Inr c3 \<longrightarrow> gen_stmt_x64 body c3 = Inr c4 \<longrightarrow> locals_ok c4)"
proof (intro conjI impI)
  assume e: "func_entry_arm64 f params c = Inr c1" and g: "gen_stmt_arm64 body c1 = Inr c2"
  from func_entry_arm64_frame_ok [OF e assms(1)] have "frame_ok c1" .
  from keeps_arm64D [OF gen_stmt_arm64_keeps g assms(2) this] show "locals_ok c2"
    by (simp add: frame_ok_def)
next
  assume e: "func_entry_x64 f params c = Inr c3" and g: "gen_stmt_x64 body c3 = Inr c4"
  from func_entry_x64_frame_ok [OF e assms(1)] have "frame_ok c3" .
  from keeps_x64D [OF gen_stmt_x64_keeps g assms(2) this] show "locals_ok c4"
    by (simp add: frame_ok_def)
qed

theorem C6_local_offsets_positive_multiples_of_4_witness:
  "\<exists>c1 c2 c3 c4.
     locals_ok (init_compiler True False [])
   \<and> sizes_ok (AST_BLOCK [AST_VARDECL ''a'' None True 5, AST_VARDECL ''x'' None False 0])
   \<and> func_entry_arm64 ''f'' [''p''] (init_compiler True False []) = Inr c1
   \<and> gen_stmt_arm64 (AST_BLOCK [AST_VARDECL ''a'' None True 5, AST_VARDECL ''x'' None False 0]) c1 = Inr c2
   \<and> locals_ok c2
   \<and> func_entry_x64 ''f'' [''p''] (init_compiler True False []) = Inr c3
   \<and> gen_stmt_x64 (AST_BLOCK [AST_VARDECL ''a'' None True 5, AST_VARDECL ''x'' None False 0]) c3 = Inr c4
   \<and> locals_ok c4"
proof -
  let ?c = "init_compiler True False []"
  let ?b = "AST_BLOCK [AST_VARDECL ''a'' None True 5, AST_VARDECL ''x'' None False 0]"
  let ?c1 = "projr (func_entry_arm64 ''f'' [''p''] ?c)"
  let ?c2 = "projr (gen_stmt_arm64 ?b ?c1)"
  let ?c3 = "projr (func_entry_x64 ''f'' [''p''] ?c)"
  let ?c4 = "projr (gen_stmt_x64 ?b ?c3)"
  have h1: "locals_ok ?c" by code_simp
  have h2: "sizes_ok ?b" by code_simp
  have e1: "func_entry_arm64 ''f'' [''p''] ?c = Inr ?c1" by code_simp
  have g1: "gen_stmt_arm64 ?b ?c1 = Inr ?c2" by code_simp
  have e2: "func_entry_x64 ''f'' [''p''] ?c = Inr ?c3" by code_simp
  have g2: "gen_stmt_x64 ?b ?c3 = Inr ?c4" by code_simp
  note T = C6_local_offsets_positive_multiples_of_4 [OF h1 h2, of "''f''" "[''p'']" ?c1 ?c2 ?c3 ?c4]
  have l2: "locals_ok ?c2"
    using T [THEN conjunct1, rule_format, OF e1 g1] .
  have l4: "locals_ok ?c4"
    using T [THEN conjunct2, rule_format, OF e2 g2] .
  show ?thesis
    by (intro exI conjI) (rule h1 h2 e1 g1 l2 e2 g2 l4)+
qed

text \<open>C10. The claim: no label name is defined twice across the assembly file. The names of
  functions and globals are printed as labels from the identifiers of the program, on
  Linux without any prefix, and nothing compares them with the names the generator makes
  up. For the x86-64 Linux target, the function \<open>L0\<close> below gets the label \<open>L0:\<close>, and so
  does the else-label of its \<open>if\<close>; the numbers of the control-flow labels are 0 and 1.\<close>

theorem C10_label_name_defined_twice_counterexample:
  "bindE (compile False True 40 ''int L0(int n){if(n)n=1;}'')
         (\<lambda>c. Inr (label_names (out c), label_defs (out c)))
     = Inr ([''L0'', ''L0'', ''L1''], [0, 1])"
  by code_simp

text \<open>C10, amended: within one compilation the label counter starts at 0 (\<open>compile\<close> sets it
  once, before the first token is read) and no function resets it, so the control-flow
  label definitions of the whole assembly file, which are the lines written with the
  format \<open>L%d:\<close>, carry pairwise distinct numbers; all of them are numbers the counter has
  handed out. This holds for both targets and both hosts, for every input that compiles.
  (Nothing is said about the labels of functions, globals and string literals.)\<close>

theorem C10_control_flow_labels_distinct:
  assumes "compile arm linux fuel text = Inr c"
  shows "distinct (label_defs (out c)) \<and> set (label_defs (out c)) \<subseteq> {0 ..< label_count c}"
  using compile_ext [OF assms] by (auto simp: ext_def init_compiler_def)

theorem C10_control_flow_labels_distinct_witness:
  "\<exists>c. compile True False 40 ''int f(int n){if(n)n=1;while(n)n=0;}'' = Inr c
     \<and> label_defs (out c) = [0, 1, 2, 3]
     \<and> distinct (label_defs (out c)) \<and> set (label_defs (out c)) \<subseteq> {0 ..< label_count c}"
proof -
  let ?r = "compile True False 40 ''int f(int n){if(n)n=1;while(n)n=0;}''"
  have "bindE ?r (\<lambda>c. Inr (label_defs (out c))) = Inr [0, 1, 2, 3]" by code_simp
  then obtain c where e: "?r = Inr c" and l: "label_defs (out c) = [0, 1, 2, 3]"
    by (cases ?r) simp_all
  from C10_control_flow_labels_distinct [OF e] e l show ?thesis by blast
qed

text \<open>C4: for all integer literals \<open>a\<close>, \<open>b\<close>, \<open>c\<close> the parser builds \<open>a + b * c\<close> as the tree
  \<open>a + (b * c)\<close> and \<open>a = b = c\<close> as the tree \<open>a = (b = c)\<close>. The input is described
  by what the lexer delivers: the current token is the literal \<open>a\<close>, the calls of
  \<open>next_token\<close> then deliver the operator \<open>op1\<close>, the literal \<open>b\<close>, the operator \<open>op2\<close>, the
  literal \<open>c\<close> and a token at which no expression goes on. Then \<open>parse_expr\<close> returns, at
  every recursion bound from 12 on, with the tree and with exactly these tokens consumed.
  The statement also covers what the claim adds in brackets: an operator of the
  multiplicative level after one of the additive level takes the right operand first,
  and two operators of the same level (or a multiplicative one before an additive one)
  group to the left.\<close>

theorem C4_precedence_and_associativity:
  assumes "ttype (cur c0) = TOK_NUM" "num (cur c0) = a"
    and "next_token c0 = Inr c1" "ttype (cur c1) = op1"
    and "next_token c1 = Inr c2" "ttype (cur c2) = TOK_NUM" "num (cur c2) = b"
    and "next_token c2 = Inr c3" "ttype (cur c3) = op2"
    and "next_token c3 = Inr c4" "ttype (cur c4) = TOK_NUM" "num (cur c4) = c"
    and "next_token c4 = Inr c5" "\<not> continues_expr (ttype (cur c5))"
  shows "(op1 = TOK_PLUS \<and> op2 = TOK_STAR \<longrightarrow>
           parse_expr (n + 12) c0
             = Inr (AST_BINOP TOK_PLUS (AST_NUM a) (AST_BINOP TOK_STAR (AST_NUM b) (AST_NUM c)), c5))
       \<and> (op1 = TOK_ASSIGN \<and> op2 = TOK_ASSIGN \<longrightarrow>
           parse_expr (n + 12) c0
             = Inr (AST_ASSIGN (AST_NUM a) (AST_ASSIGN (AST_NUM b) (AST_NUM c) NUL) NUL, c5))
       \<and> (op1 \<in> {TOK_PLUS, TOK_MINUS} \<and> op2 \<in> {TOK_STAR, TOK_SLASH, TOK_PERCENT} \<longrightarrow>
           parse_expr (n + 12) c0
             = Inr (AST_BINOP op1 (AST_NUM a) (AST_BINOP op2 (AST_NUM b) (AST_NUM c)), c5))
       \<and> ((op1 \<in> {TOK_PLUS, TOK_MINUS} \<and> op2 \<in> {TOK_PLUS, TOK_MINUS}
            \<or> op1 \<in> {TOK_STAR, TOK_SLASH, TOK_PERCENT}
                \<and> op2 \<in> {TOK_STAR, TOK_SLASH, TOK_PERCENT, TOK_PLUS, TOK_MINUS}) \<longrightarrow>
           parse_expr (n + 12) c0
             = Inr (AST_BINOP op2 (AST_BINOP op1 (AST_NUM a) (AST_NUM b)) (AST_NUM c), c5))"
  using assms unfolding parse_expr_def fuel_12 continues_expr_def
  by auto

theorem C4_precedence_and_associativity_witness:
  "(\<exists>c0 c5. next_token (init_compiler True False ''1 + 2 * 3;'') = Inr c0
       \<and> parse_expr 12 c0
           = Inr (AST_BINOP TOK_PLUS (AST_NUM 1) (AST_BINOP TOK_STAR (AST_NUM 2) (AST_NUM 3)), c5)
       \<and> ttype (cur c5) = TOK_SEMI)
 \<and> (\<exists>c0 c5. next_token (init_compiler True False ''7 = 8 = 9;'') = Inr c0
       \<and> parse_expr 12 c0
           = Inr (AST_ASSIGN (AST_NUM 7) (AST_ASSIGN (AST_NUM 8) (AST_NUM 9) NUL) NUL, c5)
       \<and> ttype (cur c5) = TOK_SEMI)"
proof (intro conjI)
  let ?c0 = "projr (next_token (init_compiler True False ''1 + 2 * 3;''))"
  let ?c1 = "projr (next_token ?c0)"
  let ?c2 = "projr (next_token ?c1)"
  let ?c3 = "projr (next_token ?c2)"
  let ?c4 = "projr (next_token ?c3)"
  let ?c5 = "projr (next_token ?c4)"
  have s: "next_token (init_compiler True False ''1 + 2 * 3;'') = Inr ?c0" by code_simp
  have h0: "ttype (cur ?c0) = TOK_NUM" "num (cur ?c0) = 1" by code_simp+
  have h1: "next_token ?c0 = Inr ?c1" "ttype (cur ?c1) = TOK_PLUS" by code_simp+
  have h2: "next_token ?c1 = Inr ?c2" "ttype (cur ?c2) = TOK_NUM" "num (cur ?c2) = 2" by code_simp+
  have h3: "next_token ?c2 = Inr ?c3" "ttype (cur ?c3) = TOK_STAR" by code_simp+
  have h4: "next_token ?c3 = Inr ?c4" "ttype (cur ?c4) = TOK_NUM" "num (cur ?c4) = 3" by code_simp+
  have h5: "next_token ?c4 = Inr ?c5" "ttype (cur ?c5) = TOK_SEMI" by code_simp+
  have e: "\<not> continues_expr (ttype (cur ?c5))" unfolding h5(2) continues_expr_def by simp
  from C4_precedence_and_associativity [OF h0 h1 h2 h3 h4 h5(1) e, of 0]
  have "parse_expr 12 ?c0
          = Inr (AST_BINOP TOK_PLUS (AST_NUM 1) (AST_BINOP TOK_STAR (AST_NUM 2) (AST_NUM 3)), ?c5)"
    by simp
  with s h5(2) show "\<exists>c0 c5. next_token (init_compiler True False ''1 + 2 * 3;'') = Inr c0
       \<and> parse_expr 12 c0
           = Inr (AST_BINOP TOK_PLUS (AST_NUM 1) (AST_BINOP TOK_STAR (AST_NUM 2) (AST_NUM 3)), c5)
       \<and> ttype (cur c5) = TOK_SEMI"
    by blast
next
  let ?c0 = "projr (next_token (init_compiler True False ''7 = 8 = 9;''))"
  let ?c1 = "projr (next_token ?c0)"
  let ?c2 = "projr (next_token ?c1)"
  let ?c3 = "projr (next_token ?c2)"
  let ?c4 = "projr (next_token ?c3)"
  let ?c5 = "projr (next_token ?c4)"
  have s: "next_token (init_compiler True False ''7 = 8 = 9;'') = Inr ?c0" by code_simp
  have h0: "ttype (cur ?c0) = TOK_NUM" "num (cur ?c0) = 7" by code_simp+
  have h1: "next_token ?c0 = Inr ?c1" "ttype (cur ?c1) = TOK_ASSIGN" by code_simp+
  have h2: "next_token ?c1 = Inr ?c2" "ttype (cur ?c2) = TOK_NUM" "num (cur ?c2) = 8" by code_simp+
  have h3: "next_token ?c2 = Inr ?c3" "ttype (cur ?c3) = TOK_ASSIGN" by code_simp+
  have h4: "next_token ?c3 = Inr ?c4" "ttype (cur ?c4) = TOK_NUM" "num (cur ?c4) = 9" by code_simp+
  have h5: "next_token ?c4 = Inr ?c5" "ttype (cur ?c5) = TOK_SEMI" by code_simp+
  have e: "\<not> continues_expr (ttype (cur ?c5))" unfolding h5(2) continues_expr_def by simp
  from C4_precedence_and_associativity [OF h0 h1 h2 h3 h4 h5(1) e, of 0]
  have "parse_expr 12 ?c0
          = Inr (AST_ASSIGN (AST_NUM 7) (AST_ASSIGN (AST_NUM 8) (AST_NUM 9) NUL) NUL, ?c5)"
    by simp
  with s h5(2) show "\<exists>c0 c5. next_token (init_compiler True False ''7 = 8 = 9;'') = Inr c0
       \<and> parse_expr 12 c0
           = Inr (AST_ASSIGN (AST_NUM 7) (AST_ASSIGN (AST_NUM 8) (AST_NUM 9) NUL) NUL, c5)
       \<and> ttype (cur c5) = TOK_SEMI"
    by blast
qed

end
